theory Spec2Isabelle
  imports Main "HOL-Library.AList" "HOL-Library.Char_ord" "HOL-Library.List_Lexorder"
begin

section \<open>Python strings\<close>

text \<open>
  A Python \<open>str\<close> is modelled as a \<^typ>\<open>string\<close>; a \<^typ>\<open>char\<close> stands for the code
  point of the same number, so the model covers text in the range U+0000..U+00FF. That
  range already holds every case in which the \<open>str\<close> methods used by the two programs
  differ from their ASCII reading: the non-ASCII white space U+0085 and U+00A0, and the
  characters U+00B2, U+00B3, U+00B9 (superscript two, three, one), for which
  \<open>str.isdigit()\<close> is true although \<open>int()\<close> rejects them.
\<close>

definition isspace :: "char \<Rightarrow> bool" where
  \<comment> \<open>the white space of \<open>str.strip()\<close> and \<open>str.split()\<close>\<close>
  "isspace c \<longleftrightarrow> c \<in> set [CHR 0x09, CHR 0x0A, CHR 0x0B, CHR 0x0C, CHR 0x0D,
     CHR 0x1C, CHR 0x1D, CHR 0x1E, CHR 0x1F, CHR 0x20, CHR 0x85, CHR 0xA0]"

definition isdecimal_char :: "char \<Rightarrow> bool" where
  "isdecimal_char c \<longleftrightarrow> CHR ''0'' \<le> c \<and> c \<le> CHR ''9''"

definition isdigit_char :: "char \<Rightarrow> bool" where
  "isdigit_char c \<longleftrightarrow> isdecimal_char c \<or> c \<in> set [CHR 0xB2, CHR 0xB3, CHR 0xB9]"

definition isdigit :: "string \<Rightarrow> bool" where
  \<comment> \<open>\<open>s.isdigit()\<close>: false on the empty string\<close>
  "isdigit s \<longleftrightarrow> s \<noteq> [] \<and> list_all isdigit_char s"

definition isdecimal :: "string \<Rightarrow> bool" where
  "isdecimal s \<longleftrightarrow> s \<noteq> [] \<and> list_all isdecimal_char s"

definition lstrip :: "string \<Rightarrow> string" where
  "lstrip s = dropWhile isspace s"

definition rstrip :: "string \<Rightarrow> string" where
  "rstrip s = rev (dropWhile isspace (rev s))"

definition strip :: "string \<Rightarrow> string" where
  "strip s = rstrip (lstrip s)"

fun split_ws :: "string \<Rightarrow> string \<Rightarrow> string list" where
  \<comment> \<open>\<open>s.split()\<close>, the first argument being the word read so far\<close>
  "split_ws w [] = (if w = [] then [] else [w])"
| "split_ws w (c # cs) =
     (if isspace c then (if w = [] then split_ws [] cs else w # split_ws [] cs)
      else split_ws (w @ [c]) cs)"

definition split :: "string \<Rightarrow> string list" where
  "split s = split_ws [] s"


fun join :: "string \<Rightarrow> string list \<Rightarrow> string" where
  "join sep [] = []"
| "join sep [w] = w"
| "join sep (w # v # ws) = w @ sep @ join sep (v # ws)"

definition replace :: "char \<Rightarrow> char \<Rightarrow> string \<Rightarrow> string" where
  "replace old new s = map (\<lambda>c. if c = old then new else c) s"

definition lower_char :: "char \<Rightarrow> char" where
  "lower_char c =
     (if (CHR ''A'' \<le> c \<and> c \<le> CHR ''Z'') \<or> (CHR 0xC0 \<le> c \<and> c \<le> CHR 0xDE \<and> c \<noteq> CHR 0xD7)
      then char_of (of_char c + (32::nat)) else c)"

definition lower :: "string \<Rightarrow> string" where
  "lower s = map lower_char s"

definition upper_char :: "char \<Rightarrow> char" where
  \<comment> \<open>the upper case of U+00B5 and of U+00FF lies outside the modelled range: they are kept\<close>
  "upper_char c =
     (if (CHR ''a'' \<le> c \<and> c \<le> CHR ''z'') \<or> (CHR 0xE0 \<le> c \<and> c \<le> CHR 0xFE \<and> c \<noteq> CHR 0xF7)
      then char_of (of_char c - (32::nat)) else c)"

definition upper :: "string \<Rightarrow> string" where
  \<comment> \<open>\<open>s.upper()\<close>: the sharp s, U+00DF, becomes \<open>SS\<close>\<close>
  "upper s = concat (map (\<lambda>c. if c = CHR 0xDF then ''SS'' else [upper_char c]) s)"

subsection \<open>Integers and their decimal form\<close>

datatype error = ValueError string | KeyError string | TypeError | AttributeError | NameError

definition digit_value :: "char \<Rightarrow> int" where
  "digit_value c = int (of_char c) - 48"

definition decimal_value :: "string \<Rightarrow> int" where
  "decimal_value ds = foldl (\<lambda>acc c. 10 * acc + digit_value c) 0 ds"

fun digits_ok :: "string \<Rightarrow> bool" where
  \<comment> \<open>decimal digits with single underscores between them\<close>
  "digits_ok [] = False"
| "digits_ok [c] = isdecimal_char c"
| "digits_ok (c # d # cs) =
     (isdecimal_char c \<and> (if d = CHR ''_'' then digits_ok cs else digits_ok (d # cs)))"

text \<open>
  \<open>int()\<close> has a white space of its own: it skips the ASCII characters U+0009..U+000D and
  U+0020 and, beyond ASCII, U+0085 and U+00A0, but not U+001C..U+001F, which \<open>str.strip()\<close>
  removes. Integers are unbounded, as Python's are: the interpreter's configurable
  safeguard on decimal conversions longer than \<open>sys.int_max_str_digits\<close> is taken to be
  off.
\<close>

definition int_space :: "char \<Rightarrow> bool" where
  "int_space c \<longleftrightarrow> c \<in> set [CHR 0x09, CHR 0x0A, CHR 0x0B, CHR 0x0C, CHR 0x0D,
     CHR 0x20, CHR 0x85, CHR 0xA0]"

definition int_strip :: "string \<Rightarrow> string" where
  "int_strip s = rev (dropWhile int_space (rev (dropWhile int_space s)))"

definition py_int :: "string \<Rightarrow> error + int" where
  \<comment> \<open>\<open>int(s)\<close> for a string: white space around, an optional sign, decimal digits\<close>
  "py_int s =
     (let t = int_strip s;
          (neg, body) = (case t of
             [] \<Rightarrow> (False, [])
           | c # cs \<Rightarrow> if c = CHR ''-'' then (True, cs) else if c = CHR ''+'' then (False, cs)
                       else (False, t))
      in if digits_ok body
         then (let v = decimal_value (filter (\<lambda>c. c \<noteq> CHR ''_'') body)
               in Inr (if neg then - v else v))
         else Inl (ValueError ''invalid literal for int() with base 10''))"

fun digits10 :: "nat \<Rightarrow> string" where
  "digits10 n =
     (if n < 10 then [char_of (48 + n)] else digits10 (n div 10) @ [char_of (48 + n mod 10)])"

declare digits10.simps [simp del]

definition str :: "int \<Rightarrow> string" where
  \<comment> \<open>\<open>str(i)\<close>\<close>
  "str i = (if i < 0 then CHR ''-'' # digits10 (nat (- i)) else digits10 (nat i))"

text \<open>
  \<open>html.unescape(s)\<close> returns \<open>s\<close> itself when \<open>s\<close> holds no ampersand, and otherwise
  replaces the character references of \<open>s\<close>. The replacement, with its table of named
  entities, belongs to the standard library and is the parameter \<open>charref\<close>.
\<close>

definition unescape :: "(string \<Rightarrow> string) \<Rightarrow> string \<Rightarrow> string" where
  "unescape charref s = (if CHR ''&'' \<notin> set s then s else charref s)"

section \<open>The markup of a chapter\<close>

text \<open>
  The tree that \<open>BeautifulSoup(html_text, "html.parser")\<close> builds: a tag with its name, the
  list of its \<open>class\<close> attribute (empty when there is none) and its children; a
  \<open>NavigableString\<close>; and a \<open>Comment\<close>, which is an instance of \<open>NavigableString\<close> that
  \<open>get_text\<close> leaves out.
\<close>

datatype node =
    Tag string "string list" "node list"
  | NavigableString string
  | Comment string

fun descendants :: "node \<Rightarrow> node list" where
  \<comment> \<open>\<open>node.descendants\<close>: document order, the node itself not included\<close>
  "descendants (Tag n cs ks) = concat (map (\<lambda>k. k # descendants k) ks)"
| "descendants (NavigableString s) = []"
| "descendants (Comment s) = []"

definition descendants_of :: "node list \<Rightarrow> node list" where
  "descendants_of ks = concat (map (\<lambda>k. k # descendants k) ks)"

fun stripped_string :: "node \<Rightarrow> string list" where
  "stripped_string (NavigableString s) = (if strip s = [] then [] else [strip s])"
| "stripped_string _ = []"

definition get_text_strip :: "node \<Rightarrow> string" where
  \<comment> \<open>\<open>node.get_text(strip=True)\<close>\<close>
  "get_text_strip nd = concat (concat (map stripped_string (descendants nd)))"

definition startswith :: "string \<Rightarrow> string \<Rightarrow> bool" where
  \<comment> \<open>\<open>s.startswith(p)\<close>, which is how the pattern \<open>^p\<close> of literal characters searches\<close>
  "startswith p s \<longleftrightarrow> take (length p) s = p"

fun is_container :: "node \<Rightarrow> bool" where
  \<comment> \<open>a \<open>div\<close> one of whose classes matches \<open>^passage-content\<close>\<close>
  "is_container (Tag n cs ks) = (n = ''div'' \<and> list_ex (startswith ''passage-content'') cs)"
| "is_container _ = False"

definition find_container :: "node list \<Rightarrow> node option" where
  "find_container soup = find is_container (descendants_of soup)"

fun is_note :: "node \<Rightarrow> bool" where
  \<comment> \<open>what the first \<open>find_all\<close> selects\<close>
  "is_note (Tag n cs ks) =
     (n \<in> set [''sup'', ''div'', ''h3''] \<and>
      list_ex (\<lambda>c. c \<in> set [''footnote'', ''footnotes'', ''crossreference'', ''crossrefs'']) cs)"
| "is_note _ = False"

fun is_h3 :: "node \<Rightarrow> bool" where
  "is_h3 (Tag n cs ks) = (n = ''h3'')"
| "is_h3 _ = False"

fun decompose :: "(node \<Rightarrow> bool) \<Rightarrow> node list \<Rightarrow> node list" where
  \<comment> \<open>the children left once every selected descendant is decomposed\<close>
  "decompose sel [] = []"
| "decompose sel (Tag n cs ks # rest) =
     (if sel (Tag n cs ks) then decompose sel rest
      else Tag n cs (decompose sel ks) # decompose sel rest)"
| "decompose sel (k # rest) = (if sel k then decompose sel rest else k # decompose sel rest)"

section \<open>The Extractor: \<open>parse_chapter_html\<close>\<close>

text \<open>The field \<open>rawText\<close> is the key \<open>"text"\<close> of a verse.\<close>

record verse_record =
  verse :: string
  rawText :: string
  readableText :: string

text \<open>The fields \<open>revision\<close> and \<open>chapter_number\<close> are the keys \<open>"rev"\<close> and \<open>"chapter"\<close>.\<close>

record chapter_record =
  book :: string
  revision :: string
  chapter_number :: string
  verses :: "verse_record list"

record pstate =
  verses_data :: "(string \<times> string list) list"
  current_verse_num :: "string option"
  ignore_next_text_node_if_matches_num :: bool

definition truthy :: "string option \<Rightarrow> bool" where
  \<comment> \<open>the truth value of a string that may be \<open>None\<close>\<close>
  "truthy x = (case x of None \<Rightarrow> False | Some s \<Rightarrow> s \<noteq> [])"

fun marker_of :: "node \<Rightarrow> string option" where
  \<comment> \<open>lines 159 to 174: the number of the verse that a tag starts, if it starts one\<close>
  "marker_of (Tag n cs ks) =
     (let (verse_marker_found, extracted_num) =
        (if n = ''sup'' \<and> ''versenum'' \<in> set cs
         then (True, Some (get_text_strip (Tag n cs ks)))
         else if n = ''span'' \<and> ''chapternum'' \<in> set cs
         then (let e = get_text_strip (Tag n cs ks)
               in if isdigit e then (True, Some ''1'') else (False, Some e))
         else (False, None))
      in if verse_marker_found \<and> truthy extracted_num \<and> isdigit (the extracted_num)
         then extracted_num else None)"
| "marker_of _ = None"

definition getitem :: "(string \<times> 'a) list \<Rightarrow> string \<Rightarrow> error + 'a" where
  \<comment> \<open>\<open>d[k]\<close>\<close>
  "getitem d k = (case map_of d k of None \<Rightarrow> Inl (KeyError k) | Some v \<Rightarrow> Inr v)"

definition append_part :: "(string \<times> string list) list \<Rightarrow> string \<Rightarrow> string
    \<Rightarrow> error + (string \<times> string list) list" where
  \<comment> \<open>\<open>d[k].append(part)\<close>\<close>
  "append_part d k part =
     (case getitem d k of Inl e \<Rightarrow> Inl e | Inr parts \<Rightarrow> Inr (AList.update k (parts @ [part]) d))"

definition line_break :: "pstate \<Rightarrow> error + pstate" where
  \<comment> \<open>lines 184 to 188, for a \<open>br\<close> tag while a verse is current\<close>
  "line_break st =
     (let cur = the (current_verse_num st)
      in case getitem (verses_data st) cur of
           Inl e \<Rightarrow> Inl e
         | Inr parts \<Rightarrow>
             (if parts = [] \<or> last parts \<noteq> [CHR 0x0A]
              then (case append_part (verses_data st) cur [CHR 0x0A] of
                      Inl e \<Rightarrow> Inl e
                    | Inr d \<Rightarrow> Inr (st\<lparr>verses_data := d,
                                     ignore_next_text_node_if_matches_num := False\<rparr>))
              else Inr (st\<lparr>ignore_next_text_node_if_matches_num := False\<rparr>)))"

definition text_node :: "pstate \<Rightarrow> string \<Rightarrow> error + pstate" where
  \<comment> \<open>lines 197 to 209\<close>
  "text_node st text_part =
     (if truthy (current_verse_num st)
      then (let cur = the (current_verse_num st)
            in if ignore_next_text_node_if_matches_num st \<and> strip text_part = cur
               then Inr (st\<lparr>ignore_next_text_node_if_matches_num := False\<rparr>)
               else (case append_part (verses_data st) cur text_part of
                       Inl e \<Rightarrow> Inl e
                     | Inr d \<Rightarrow>
                         Inr (if strip text_part \<noteq> []
                              then st\<lparr>verses_data := d,
                                      ignore_next_text_node_if_matches_num := False\<rparr>
                              else st\<lparr>verses_data := d\<rparr>)))
      else Inr st)"

definition empty_span :: "node \<Rightarrow> pstate \<Rightarrow> pstate" where
  \<comment> \<open>lines 191 to 193\<close>
  "empty_span nd st =
     (case nd of
        Tag n cs ks \<Rightarrow>
          if n = ''span'' \<and> get_text_strip nd = []
          then st\<lparr>ignore_next_text_node_if_matches_num := False\<rparr> else st
      | _ \<Rightarrow> st)"

fun step :: "pstate \<Rightarrow> node \<Rightarrow> error + pstate" where
  \<comment> \<open>one turn of the loop over \<open>container.descendants\<close>\<close>
  "step st (Tag n cs ks) =
     (case marker_of (Tag n cs ks) of
        Some num \<Rightarrow>
          Inr (st\<lparr>verses_data :=
                    (if map_of (verses_data st) num = None
                     then verses_data st @ [(num, [])] else verses_data st),
                  current_verse_num := Some num,
                  ignore_next_text_node_if_matches_num := True\<rparr>)
      | None \<Rightarrow>
          (if n = ''br'' \<and> truthy (current_verse_num st)
           then (case line_break st of
                   Inl e \<Rightarrow> Inl e
                 | Inr st' \<Rightarrow> Inr (empty_span (Tag n cs ks) st'))
           else Inr (empty_span (Tag n cs ks) st)))"
| "step st (NavigableString s) = text_node st s"
| "step st (Comment s) = text_node st s"

fun traverse :: "pstate \<Rightarrow> node list \<Rightarrow> error + pstate" where
  "traverse st [] = Inr st"
| "traverse st (nd # nds) =
     (case step st nd of Inl e \<Rightarrow> Inl e | Inr st' \<Rightarrow> traverse st' nds)"

fun ints_of :: "string list \<Rightarrow> error + int list" where
  \<comment> \<open>\<open>map(int, keys)\<close>, consumed in order\<close>
  "ints_of [] = Inr []"
| "ints_of (k # ks) =
     (case py_int k of
        Inl e \<Rightarrow> Inl e
      | Inr i \<Rightarrow> (case ints_of ks of Inl e \<Rightarrow> Inl e | Inr is \<Rightarrow> Inr (i # is)))"

definition make_verse :: "(string \<Rightarrow> string) \<Rightarrow> (string \<times> string list) list \<Rightarrow> int
    \<Rightarrow> verse_record" where
  \<comment> \<open>lines 217 to 231\<close>
  "make_verse charref d i =
     (let num_str = str i;
          verse_content = (case map_of d num_str of None \<Rightarrow> [] | Some parts \<Rightarrow> parts);
          raw_text = unescape charref (concat verse_content);
          readable_text = replace (CHR 0x09) (CHR '' '') (replace (CHR 0x0A) (CHR '' '') raw_text);
          readable_text_normalized = strip (join '' '' (split readable_text))
      in \<lparr>verse = num_str, rawText = strip raw_text,
          readableText = readable_text_normalized\<rparr>)"

definition format_output :: "(string \<Rightarrow> string) \<Rightarrow> (string \<times> string list) list
    \<Rightarrow> error + verse_record list" where
  \<comment> \<open>lines 212 to 233\<close>
  "format_output charref d =
     (if d \<noteq> []
      then (case ints_of (map fst d) of
              Inl e \<Rightarrow> Inl e
            | Inr is \<Rightarrow> Inr (map (make_verse charref d) [1..Max (set is)]))
      else Inr [])"

definition clean :: "node list \<Rightarrow> node list" where
  \<comment> \<open>lines 144 to 149, on the children of the container\<close>
  "clean ks = decompose is_h3 (decompose is_note ks)"

definition parse_chapter_html :: "(string \<Rightarrow> string) \<Rightarrow> node list \<Rightarrow> string \<Rightarrow> string \<Rightarrow> int
    \<Rightarrow> error + chapter_record" where
  "parse_chapter_html charref soup book_code version chap =
     (case find_container soup of
        Some (Tag n cs ks) \<Rightarrow>
          (case traverse \<lparr>verses_data = [], current_verse_num = None,
                           ignore_next_text_node_if_matches_num = False\<rparr>
                  (descendants_of (clean ks)) of
             Inl e \<Rightarrow> Inl e
           | Inr st \<Rightarrow>
               (case format_output charref (verses_data st) of
                  Inl e \<Rightarrow> Inl e
                | Inr vs \<Rightarrow> Inr \<lparr>book = upper book_code, revision = version,
                                 chapter_number = str chap,
                                 verses = vs\<rparr>))
      | _ \<Rightarrow> Inl (ValueError ''passage-content not found''))"

subsection \<open>What the traversal observes\<close>

text \<open>
  The numbers of the verse markers met in a list of nodes, in document order, and those of
  a whole document: the markers among the descendants of its container, once cleaned.
\<close>

fun verse_markers :: "node list \<Rightarrow> string list" where
  "verse_markers [] = []"
| "verse_markers (nd # nds) =
     (case marker_of nd of Some k \<Rightarrow> k # verse_markers nds | None \<Rightarrow> verse_markers nds)"

definition markers_observed :: "node list \<Rightarrow> string list" where
  "markers_observed soup =
     (case find_container soup of
        Some (Tag n cs ks) \<Rightarrow> verse_markers (descendants_of (clean ks))
      | _ \<Rightarrow> [])"

text \<open>
  The invariant of the loop: the current verse number, when there is one, is a key of
  \<open>verses_data\<close>.
\<close>

definition key_inv :: "pstate \<Rightarrow> bool" where
  "key_inv st \<longleftrightarrow> (\<forall>k. current_verse_num st = Some k \<longrightarrow> k \<in> set (map fst (verses_data st)))"

text \<open>A run of two or more consecutive spaces.\<close>

fun space_run :: "string \<Rightarrow> bool" where
  "space_run (a # b # cs) \<longleftrightarrow> (a = CHR '' '' \<and> b = CHR '' '') \<or> space_run (b # cs)"
| "space_run _ \<longleftrightarrow> False"

text \<open>
  Text in normal form: no white space but single spaces, and none of them at either end.
\<close>

definition tidy :: "string \<Rightarrow> bool" where
  "tidy s = ((\<forall>c \<in> set s. c = CHR '' '' \<or> \<not> isspace c) \<and> \<not> space_run s \<and>
     (s \<noteq> [] \<longrightarrow> \<not> isspace (hd s) \<and> \<not> isspace (last s)))"

subsection \<open>Sample documents\<close>

definition genesis3 :: "node list" where
  "genesis3 =
     [Tag ''div'' [''passage-content'']
        [Tag ''span'' [''chapternum''] [NavigableString ''3 ''],
         NavigableString ''Now the serpent'']]"

definition superscript_marker :: "node list" where
  "superscript_marker =
     [Tag ''div'' [''passage-content'']
        [Tag ''sup'' [''versenum''] [NavigableString [CHR 0xB2]],
         NavigableString ''the earth'']]"

definition verse_two_only :: "node list" where
  "verse_two_only =
     [Tag ''div'' [''passage-content'']
        [Tag ''sup'' [''versenum''] [NavigableString ''2 ''],
         NavigableString ''the  earth'', Tag ''br'' [] [], NavigableString '' was''],
      NavigableString ''tail'']"

definition third_verse_superscript :: "node list" where
  "third_verse_superscript =
     [Tag ''div'' [''passage-content'']
        [Tag ''span'' [''chapternum''] [NavigableString ''1 ''],
         NavigableString ''In the beginning'',
         Tag ''sup'' [''versenum''] [NavigableString ''2 ''],
         NavigableString ''the earth was formless'',
         Tag ''sup'' [''versenum''] [NavigableString [CHR 0xB3]],
         NavigableString ''and God said'']]"

definition empty_container :: "node list" where
  "empty_container =
     [Tag ''html'' []
        [Tag ''div'' [''passage-content'', ''passage-class-0'']
           [Tag ''h3'' [] [NavigableString ''Title''], NavigableString ''No results found.'']]]"

section \<open>The Resolver: \<open>parse_range\<close>\<close>




section \<open>The Orchestrator: \<open>grab\<close> and \<open>download_book\<close>\<close>

text \<open>
  What \<open>await fetch_html(session, url)\<close> comes to: the markup, already parsed, or one of
  the exceptions that \<open>grab\<close> tells apart. The files written are a map from the path to the
  record serialised; creating a directory and writing a file are taken to succeed inside
  \<open>grab\<close>.
\<close>

datatype fetch_result = Html "node list" | ClientResponseError | TimeoutError | OtherException

type_synonym filesystem = "string \<rightharpoonup> chapter_record"

definition zero_pad :: "nat \<Rightarrow> int \<Rightarrow> string" where
  \<comment> \<open>the format \<open>{i:0w}\<close>\<close>
  "zero_pad w i =
     (if i < 0
      then (let ds = digits10 (nat (- i)) in CHR ''-'' # replicate (w - 1 - length ds) (CHR ''0'') @ ds)
      else (let ds = digits10 (nat i) in replicate (w - length ds) (CHR ''0'') @ ds))"

definition chapter_path :: "string \<Rightarrow> string \<Rightarrow> int \<Rightarrow> string" where
  "chapter_path out_dir book_code chap = out_dir @ ''/'' @ book_code @ ''.'' @ zero_pad 3 chap @ ''.json''"

definition grab :: "fetch_result \<Rightarrow> (string \<Rightarrow> string) \<Rightarrow> string \<Rightarrow> string \<Rightarrow> int \<Rightarrow> string
    \<Rightarrow> filesystem \<Rightarrow> int option \<times> filesystem" where
  \<comment> \<open>lines 284 to 311: the value returned and the files afterwards\<close>
  "grab fetched charref version book_code chap out_dir fs =
     (case fetched of
        Html soup \<Rightarrow>
          (case parse_chapter_html charref soup book_code version chap of
             Inr data \<Rightarrow>
               if verses data = [] then (None, fs)
               else (Some chap, fs(chapter_path out_dir book_code chap \<mapsto> data))
           | Inl e \<Rightarrow> (None, fs))
      | _ \<Rightarrow> (None, fs))"


text \<open>
  \<open>download_book\<close> has no \<open>return\<close> with a value: where it returns, it returns \<open>None\<close>,
  and what it has counted goes into the message it prints last. The model keeps the value
  returned (\<open>None\<close> for Python's \<open>None\<close>), the message, and the files. \<open>fetch c\<close> is the
  outcome of \<open>fetch_html\<close> for chapter \<open>c\<close>, whose URL is fixed by the version, the name of
  the book and \<open>c\<close>; \<open>mkdir_ok\<close> tells whether the directory of the book could be
  created. Every code of \<open>CHAPS\<close> has an alias in \<open>BOOK_INFO\<close>, so \<open>next\<close> at line 336 finds
  the name of the book.

  \<open>asyncio.Semaphore(concurrency)\<close> at line 352 raises \<open>ValueError\<close> for a negative value.
  With the value 0 no task ever enters \<open>async with sem\<close>, and the loop over
  \<open>as_completed\<close> waits for the first of them for ever: the call does not return. With a
  positive value every task runs; the tasks are taken one after the other in the order of
  the chapter list, each of them reading nothing that another writes.
\<close>

datatype report =
    NoChapterCount
  | NoValidChapters
  | DirectoryError
  | Finished nat nat

record outcome =
  returned :: "int option"
  printed :: report
  files :: filesystem


datatype run = Returns outcome | Raises error | Blocks



section \<open>The Aggregator: \<open>parse_version\<close>\<close>

subsection \<open>What \<open>json.loads\<close> returns\<close>

text \<open>
  The values of JSON as Python holds them, an object being the association list of a
  \<open>dict\<close>, with distinct keys. Numbers with a fraction or an exponent (Python's \<open>float\<close>)
  are not modelled. A chapter file is what reading and decoding it comes to: a decoding
  error, or the value.
\<close>

datatype json =
    JNull
  | JBool bool
  | JInt int
  | JStr string
  | JList "json list"
  | JDict "(string \<times> json) list"

datatype content = Malformed | Json json

fun subscript :: "json \<Rightarrow> string \<Rightarrow> error + json" where
  \<comment> \<open>\<open>v[key]\<close> for a string \<open>key\<close>\<close>
  "subscript (JDict d) key = (case map_of d key of None \<Rightarrow> Inl (KeyError key) | Some x \<Rightarrow> Inr x)"
| "subscript _ key = Inl TypeError"

fun get :: "json \<Rightarrow> string \<Rightarrow> json \<Rightarrow> error + json" where
  \<comment> \<open>\<open>v.get(key, default)\<close>\<close>
  "get (JDict d) key dflt = (case map_of d key of None \<Rightarrow> Inr dflt | Some x \<Rightarrow> Inr x)"
| "get _ key dflt = Inl AttributeError"

fun truth :: "json \<Rightarrow> bool" where
  "truth JNull = False"
| "truth (JBool b) = b"
| "truth (JInt i) = (i \<noteq> 0)"
| "truth (JStr s) = (s \<noteq> [])"
| "truth (JList xs) = (xs \<noteq> [])"
| "truth (JDict d) = (d \<noteq> [])"

fun json_int :: "json \<Rightarrow> error + int" where
  \<comment> \<open>\<open>int(x)\<close>\<close>
  "json_int (JStr s) = py_int s"
| "json_int (JInt i) = Inr i"
| "json_int (JBool b) = Inr (if b then 1 else 0)"
| "json_int _ = Inl TypeError"

fun iterate :: "json \<Rightarrow> error + json list" where
  \<comment> \<open>the values that \<open>for v in x\<close> runs through\<close>
  "iterate (JList xs) = Inr xs"
| "iterate (JDict d) = Inr (map (\<lambda>(k, x). JStr k) d)"
| "iterate (JStr s) = Inr (map (\<lambda>c. JStr [c]) s)"
| "iterate _ = Inl TypeError"

subsection \<open>The documents built\<close>

text \<open>
  The keys \<open>"number"\<close> and \<open>"text"\<close> of a verse are the fields \<open>verse_number\<close> and
  \<open>verse_text\<close>; \<open>"number"\<close> and \<open>"verses"\<close> of a chapter are \<open>chapter_no\<close> and
  \<open>chapter_verses\<close>; \<open>"number"\<close> and \<open>"name"\<close> of a book are \<open>book_number\<close> and
  \<open>book_name\<close>.
\<close>

record verse_out =
  verse_number :: int
  verse_text :: string

record chapter_out =
  chapter_no :: int
  chapter_verses :: "verse_out list"

record book_out =
  book_number :: int
  book_name :: string
  chapters :: "chapter_out list"

record bible =
  name :: string
  metadata_source :: string
  metadata_revision :: string
  books :: "book_out list"

definition BOOKS :: "(string \<times> string) list" where
  "BOOKS =
    [(''gen'', ''Genesis''), (''exo'', ''Exodus''), (''lev'', ''Leviticus''), (''num'', ''Numbers''),
     (''deu'', ''Deuteronomy''), (''jos'', ''Joshua''), (''jdg'', ''Judges''), (''rut'', ''Ruth''),
     (''1sa'', ''1 Samuel''), (''2sa'', ''2 Samuel''), (''1ki'', ''1 Kings''), (''2ki'', ''2 Kings''),
     (''1ch'', ''1 Chronicles''), (''2ch'', ''2 Chronicles''), (''ezr'', ''Ezra''),
     (''neh'', ''Nehemiah''), (''est'', ''Esther''), (''job'', ''Job''), (''psa'', ''Psalms''),
     (''pro'', ''Proverbs''), (''ecc'', ''Ecclesiastes''), (''sng'', ''Song of Solomon''),
     (''isa'', ''Isaiah''), (''jer'', ''Jeremiah''), (''lam'', ''Lamentations''),
     (''ezk'', ''Ezekiel''), (''dan'', ''Daniel''), (''hos'', ''Hosea''), (''jol'', ''Joel''),
     (''amo'', ''Amos''), (''oba'', ''Obadiah''), (''jon'', ''Jonah''), (''mic'', ''Micah''),
     (''nam'', ''Nahum''), (''hab'', ''Habakkuk''), (''zep'', ''Zephaniah''), (''hag'', ''Haggai''),
     (''zec'', ''Zechariah''), (''mal'', ''Malachi''), (''mat'', ''Matthew''), (''mrk'', ''Mark''),
     (''luk'', ''Luke''), (''jhn'', ''John''), (''act'', ''Acts''), (''rom'', ''Romans''),
     (''1co'', ''1 Corinthians''), (''2co'', ''2 Corinthians''), (''gal'', ''Galatians''),
     (''eph'', ''Ephesians''), (''php'', ''Philippians''), (''col'', ''Colossians''),
     (''1th'', ''1 Thessalonians''), (''2th'', ''2 Thessalonians''), (''1ti'', ''1 Timothy''),
     (''2ti'', ''2 Timothy''), (''tit'', ''Titus''), (''phm'', ''Philemon''), (''heb'', ''Hebrews''),
     (''jas'', ''James''), (''1pe'', ''1 Peter''), (''2pe'', ''2 Peter''), (''1jn'', ''1 John''),
     (''2jn'', ''2 John''), (''3jn'', ''3 John''), (''jud'', ''Jude''), (''rev'', ''Revelation'')]"

definition capitalize :: "string \<Rightarrow> string" where
  "capitalize s = (case s of [] \<Rightarrow> [] | c # cs \<Rightarrow> upper_char c # lower cs)"

subsection \<open>One verse, one chapter file\<close>

definition clean_text :: "(string \<Rightarrow> string) \<Rightarrow> json \<Rightarrow> error + string" where
  \<comment> \<open>\<open>html.unescape(raw.strip())\<close>: only a string has \<open>strip\<close>\<close>
  "clean_text charref raw =
     (case raw of JStr s \<Rightarrow> Inr (unescape charref (strip s)) | _ \<Rightarrow> Inl AttributeError)"

definition verse_of :: "(string \<Rightarrow> string) \<Rightarrow> json \<Rightarrow> error + verse_out" where
  \<comment> \<open>lines 88 to 92: the dictionary built for one element \<open>v\<close>\<close>
  "verse_of charref v =
     (case subscript v ''verse'' of
        Inl e \<Rightarrow> Inl e
      | Inr x \<Rightarrow>
          (case json_int x of
             Inl e \<Rightarrow> Inl e
           | Inr number \<Rightarrow>
               (case get v ''readableText'' JNull of
                  Inl e \<Rightarrow> Inl e
                | Inr readable \<Rightarrow>
                    (case (if truth readable then Inr readable else subscript v ''text'') of
                       Inl e \<Rightarrow> Inl e
                     | Inr raw \<Rightarrow>
                         (case clean_text charref raw of
                            Inl e \<Rightarrow> Inl e
                          | Inr t \<Rightarrow> Inr \<lparr>verse_number = number, verse_text = t\<rparr>)))))"

fun verses_of_list :: "(string \<Rightarrow> string) \<Rightarrow> json list \<Rightarrow> error + verse_out list" where
  \<comment> \<open>the comprehension, element after element\<close>
  "verses_of_list charref [] = Inr []"
| "verses_of_list charref (v # vs) =
     (case verse_of charref v of
        Inl e \<Rightarrow> Inl e
      | Inr x \<Rightarrow> (case verses_of_list charref vs of Inl e \<Rightarrow> Inl e | Inr xs \<Rightarrow> Inr (x # xs)))"

definition verses_of :: "(string \<Rightarrow> string) \<Rightarrow> json \<Rightarrow> error + verse_out list" where
  \<comment> \<open>lines 87 to 94\<close>
  "verses_of charref data =
     (case get data ''verses'' (JList []) of
        Inl e \<Rightarrow> Inl e
      | Inr x \<Rightarrow> (case iterate x of Inl e \<Rightarrow> Inl e | Inr vs \<Rightarrow> verses_of_list charref vs))"

text \<open>
  \<open>convert_bible.py\<close> never imports \<open>sys\<close>. Each of its messages is written by
  \<open>print(..., file=sys.stderr)\<close>, and evaluating \<open>sys.stderr\<close> raises \<open>NameError\<close>: in the
  handlers of lines 100 and 102 as at lines 98 and 110.
\<close>

definition print_to_sys_stderr :: "string \<Rightarrow> error + unit" where
  "print_to_sys_stderr message = Inl NameError"

datatype chapter_outcome = Added chapter_out | Skipped

definition read_chapter :: "(string \<Rightarrow> string) \<Rightarrow> int \<Rightarrow> content \<Rightarrow> error + chapter_outcome" where
  \<comment> \<open>lines 85 to 102: the \<open>try\<close> statement for one chapter file\<close>
  "read_chapter charref chap_num c =
     (case c of
        Malformed \<Rightarrow>
          (case print_to_sys_stderr ''Error: Could not decode JSON. Skipping file.'' of
             Inl e \<Rightarrow> Inl e | Inr u \<Rightarrow> Inr Skipped)
      | Json data \<Rightarrow>
          (case verses_of charref data of
             Inr vs \<Rightarrow>
               if vs \<noteq> [] then Inr (Added \<lparr>chapter_no = chap_num, chapter_verses = vs\<rparr>)
               else (case print_to_sys_stderr ''Warning: No verses found. Skipping chapter.'' of
                       Inl e \<Rightarrow> Inl e | Inr u \<Rightarrow> Inr Skipped)
           | Inl (KeyError k) \<Rightarrow>
               (case print_to_sys_stderr ''Error: Missing key. Skipping file.'' of
                  Inl e \<Rightarrow> Inl e | Inr u \<Rightarrow> Inr Skipped)
           | Inl e \<Rightarrow> Inl e))"

subsection \<open>Folders and file names\<close>

text \<open>
  A version directory is the list of its entries, in any order, each with its name: a
  plain file, or a folder with the chapter files in it. The entries of a book folder that
  the pattern selects are taken to be readable files.
\<close>

datatype entry = PlainFile | Folder "(string \<times> content) list"

definition endswith :: "string \<Rightarrow> string \<Rightarrow> bool" where
  "endswith p s \<longleftrightarrow> (length p \<le> length s \<and> drop (length s - length p) s = p)"

definition is_az09 :: "char \<Rightarrow> bool" where
  "is_az09 c \<longleftrightarrow> ((CHR ''a'' \<le> c \<and> c \<le> CHR ''z'') \<or> isdecimal_char c)"

definition match_book_folder :: "string \<Rightarrow> (int \<times> string) option" where
  \<comment> \<open>\<open>re.match(r"(\d{2})_([a-z0-9]+)", name)\<close>: the order and the abbreviation\<close>
  "match_book_folder nm =
     (case nm of
        d1 # d2 # u # rest \<Rightarrow>
          if isdecimal_char d1 \<and> isdecimal_char d2 \<and> u = CHR ''_'' \<and> takeWhile is_az09 rest \<noteq> []
          then Some (decimal_value [d1, d2], takeWhile is_az09 rest) else None
      | _ \<Rightarrow> None)"

definition glob_match :: "string \<Rightarrow> string \<Rightarrow> bool" where
  \<comment> \<open>the pattern \<open>{abbr}.*.json\<close>\<close>
  "glob_match abbr nm \<longleftrightarrow>
     (startswith (abbr @ ''.'') nm \<and> endswith ''.json'' nm \<and> length abbr + 6 \<le> length nm)"

definition match_chapter_file :: "string \<Rightarrow> string \<Rightarrow> string option" where
  \<comment> \<open>\<open>re.match(rf"{abbr}\.(\d+)\.json", name)\<close>: the digits\<close>
  "match_chapter_file abbr nm =
     (if startswith (abbr @ ''.'') nm
      then (let r = drop (length abbr + 1) nm
            in if takeWhile isdecimal_char r \<noteq> [] \<and> startswith ''.json'' (dropWhile isdecimal_char r)
               then Some (takeWhile isdecimal_char r) else None)
      else None)"

definition chapter_number_of :: "string \<Rightarrow> int" where
  \<comment> \<open>line 83: \<open>int(digits.lstrip("0") or "0")\<close>\<close>
  "chapter_number_of ds =
     (let t = dropWhile (\<lambda>c. c = CHR ''0'') ds in decimal_value (if t \<noteq> [] then t else ''0''))"

fun chapter_files :: "(string \<Rightarrow> string) \<Rightarrow> string \<Rightarrow> (string \<times> content) list \<Rightarrow> chapter_out list
    \<Rightarrow> error + chapter_out list" where
  \<comment> \<open>lines 79 to 102: the loop over the sorted files, \<open>chs\<close> being the list \<open>chapters\<close>\<close>
  "chapter_files charref abbr [] chs = Inr chs"
| "chapter_files charref abbr ((nm, c) # rest) chs =
     (case match_chapter_file abbr nm of
        None \<Rightarrow> chapter_files charref abbr rest chs
      | Some ds \<Rightarrow>
          (case read_chapter charref (chapter_number_of ds) c of
             Inl e \<Rightarrow> Inl e
           | Inr (Added ch) \<Rightarrow> chapter_files charref abbr rest (chs @ [ch])
           | Inr Skipped \<Rightarrow> chapter_files charref abbr rest chs))"

fun book_folders :: "(string \<Rightarrow> string) \<Rightarrow> (string \<times> entry) list \<Rightarrow> book_out list
    \<Rightarrow> error + book_out list" where
  \<comment> \<open>lines 67 to 110: the loop over the sorted entries, \<open>bs\<close> being the list \<open>bible["books"]\<close>\<close>
  "book_folders charref [] bs = Inr bs"
| "book_folders charref ((nm, PlainFile) # rest) bs = book_folders charref rest bs"
| "book_folders charref ((nm, Folder fs) # rest) bs =
     (case match_book_folder nm of
        None \<Rightarrow> book_folders charref rest bs
      | Some (order, abbr) \<Rightarrow>
          (let bname = (case map_of BOOKS abbr of Some n \<Rightarrow> n | None \<Rightarrow> capitalize abbr)
           in case chapter_files charref abbr
                     (sort_key fst (filter (\<lambda>(f, c). glob_match abbr f) fs)) [] of
                Inl e \<Rightarrow> Inl e
              | Inr chs \<Rightarrow>
                  if chs \<noteq> []
                  then book_folders charref rest
                         (bs @ [\<lparr>book_number = order, book_name = bname, chapters = chs\<rparr>])
                  else (case print_to_sys_stderr ''Warning: No valid chapters found. Skipping book.'' of
                          Inl e \<Rightarrow> Inl e
                        | Inr u \<Rightarrow> book_folders charref rest bs)))"

definition parse_version :: "(string \<Rightarrow> string) \<Rightarrow> string \<Rightarrow> (string \<times> entry) list \<Rightarrow> error + bible" where
  \<comment> \<open>the directory is given by its name and its entries\<close>
  "parse_version charref version_dir_name entries =
     (let rev = upper version_dir_name
      in case book_folders charref (sort_key fst entries) [] of
           Inl e \<Rightarrow> Inl e
         | Inr bs \<Rightarrow>
             Inr \<lparr>name = ''Bible '' @ rev, metadata_source = ''parsedBible repo'',
                  metadata_revision = rev, books = sort_key book_number bs\<rparr>)"

subsection \<open>Layouts of a version directory\<close>

text \<open>
  A chapter file is well named for a width \<open>w\<close> when its name is the abbreviation, a dot,
  \<open>w\<close> decimal digits and \<open>.json\<close>, as \<open>fetch_bible.py\<close> writes it with three digits; a
  book folder is padded when the names of its files are distinct and those that the
  pattern selects are well named. \<open>book_orders\<close> lists the two-digit orders of the book
  folders, and \<open>nums\<close> the chapter numbers that a list of files gives.
\<close>

definition well_named :: "nat \<Rightarrow> string \<Rightarrow> string \<Rightarrow> bool" where
  "well_named w abbr nm =
     (let ds = take w (drop (length abbr + 1) nm)
      in length ds = w \<and> list_all isdecimal_char ds \<and> nm = abbr @ ''.'' @ ds @ ''.json'')"

definition padded :: "nat \<Rightarrow> string \<Rightarrow> (string \<times> content) list \<Rightarrow> bool" where
  "padded w abbr fs =
     (distinct (map fst fs) \<and> list_all (\<lambda>(f, c). glob_match abbr f \<longrightarrow> well_named w abbr f) fs)"

fun folder_padded :: "nat \<Rightarrow> string \<times> entry \<Rightarrow> bool" where
  "folder_padded w (nm, Folder fs) =
     (case match_book_folder nm of Some (order, abbr) \<Rightarrow> padded w abbr fs | None \<Rightarrow> True)"
| "folder_padded w (nm, PlainFile) = True"

fun is_book_folder :: "string \<times> entry \<Rightarrow> bool" where
  "is_book_folder (nm, Folder fs) = (match_book_folder nm \<noteq> None)"
| "is_book_folder (nm, PlainFile) = False"

definition book_orders :: "(string \<times> entry) list \<Rightarrow> int list" where
  "book_orders entries = map (\<lambda>(nm, e). fst (the (match_book_folder nm))) (filter is_book_folder entries)"

fun nums :: "string \<Rightarrow> (string \<times> content) list \<Rightarrow> int list" where
  "nums abbr [] = []"
| "nums abbr ((f, c) # rest) =
     (case match_chapter_file abbr f of
        None \<Rightarrow> nums abbr rest
      | Some ds \<Rightarrow> chapter_number_of ds # nums abbr rest)"

subsection \<open>Sample files\<close>

definition verse1 :: json where
  "verse1 = JDict [(''verse'', JStr ''1''), (''text'', JStr ''In the beginning''),
                   (''readableText'', JStr ''In the beginning'')]"

definition chapter_json :: content where
  "chapter_json = Json (JDict [(''book'', JStr ''GEN''), (''rev'', JStr ''NTV''),
                               (''chapter'', JStr ''1''), (''verses'', JList [verse1])])"

definition missing_verse_key :: content where
  "missing_verse_key =
     Json (JDict [(''verses'', JList [JDict [(''text'', JStr ''In the beginning'')]])])"

definition empty_readable :: json where
  "empty_readable = JDict [(''verse'', JStr ''1''), (''text'', JStr ''In the beginning''),
                           (''readableText'', JStr [])]"

definition two_books :: "(string \<times> entry) list" where
  "two_books =
     [(''02_exo'', Folder [(''exo.001.json'', chapter_json)]),
      (''README.md'', PlainFile),
      (''01_gen'', Folder [(''gen.010.json'', chapter_json), (''gen.009.json'', chapter_json),
                           (''notes.txt'', Malformed)])]"

section \<open>Properties of the Extractor\<close>

subsection \<open>The traversal never fails\<close>

lemma getitem_Inr: "k \<in> set (map fst d) \<Longrightarrow> \<exists>v. getitem d k = Inr v"
  by (auto simp: getitem_def map_of_eq_None_iff split: option.splits)

lemma append_part_Inr:
  "k \<in> set (map fst d) \<Longrightarrow> \<exists>d'. append_part d k p = Inr d' \<and> map fst d' = map fst d"
proof -
  assume k: "k \<in> set (map fst d)"
  then obtain v where "getitem d k = Inr v" using getitem_Inr by blast
  then show ?thesis using k by (simp add: append_part_def update_keys)
qed

lemma line_break_Inr:
  assumes "key_inv st" "current_verse_num st = Some k"
  shows "\<exists>st'. line_break st = Inr st' \<and> map fst (verses_data st') = map fst (verses_data st)
     \<and> current_verse_num st' = current_verse_num st"
proof -
  have k: "k \<in> set (map fst (verses_data st))" using assms by (simp add: key_inv_def)
  obtain v where v: "getitem (verses_data st) k = Inr v" using getitem_Inr[OF k] by blast
  obtain d' where d: "append_part (verses_data st) k [CHR 0x0A] = Inr d'"
      "map fst d' = map fst (verses_data st)" using append_part_Inr[OF k] by blast
  show ?thesis using assms(2) v d by (simp add: line_break_def Let_def)
qed

lemma text_node_Inr:
  assumes "key_inv st"
  shows "\<exists>st'. text_node st s = Inr st' \<and> map fst (verses_data st') = map fst (verses_data st)
     \<and> current_verse_num st' = current_verse_num st"
proof (cases "current_verse_num st")
  case None
  then show ?thesis by (simp add: text_node_def truthy_def)
next
  case (Some k)
  have k: "k \<in> set (map fst (verses_data st))" using assms Some by (simp add: key_inv_def)
  obtain d' where d: "append_part (verses_data st) k s = Inr d'"
      "map fst d' = map fst (verses_data st)" using append_part_Inr[OF k] by blast
  show ?thesis using Some d by (simp add: text_node_def Let_def)
qed

lemma empty_span_fields [simp]:
  "verses_data (empty_span nd st) = verses_data st"
  "current_verse_num (empty_span nd st) = current_verse_num st"
  by (auto simp: empty_span_def split: node.splits)

lemma step_Inr:
  assumes "key_inv st"
  shows "\<exists>st'. step st nd = Inr st' \<and> key_inv st' \<and>
     map fst (verses_data st') =
       (case marker_of nd of
          Some k \<Rightarrow> if k \<in> set (map fst (verses_data st)) then map fst (verses_data st)
                    else map fst (verses_data st) @ [k]
        | None \<Rightarrow> map fst (verses_data st))"
proof (cases nd)
  case (Tag n cs ks)
  show ?thesis
  proof (cases "marker_of nd")
    case (Some k)
    then show ?thesis using Tag
      by (auto simp: key_inv_def map_of_eq_None_iff)
  next
    case None
    show ?thesis
    proof (cases "n = ''br'' \<and> truthy (current_verse_num st)")
      case True
      then obtain k where k: "current_verse_num st = Some k"
        by (auto simp: truthy_def split: option.splits)
      obtain st' where "line_break st = Inr st'"
        "map fst (verses_data st') = map fst (verses_data st)"
        "current_verse_num st' = current_verse_num st"
        using line_break_Inr[OF assms k] by blast
      moreover from this have "fst ` set (verses_data st') = fst ` set (verses_data st)"
        by (metis set_map)
      ultimately show ?thesis using Tag None True assms by (simp add: key_inv_def)
    next
      case False
      then show ?thesis using Tag None assms by (auto simp: key_inv_def)
    qed
  qed
next
  case (NavigableString s)
  obtain st' where "text_node st s = Inr st'"
    "map fst (verses_data st') = map fst (verses_data st)"
    "current_verse_num st' = current_verse_num st"
    using text_node_Inr[OF assms] by blast
  moreover from this have "fst ` set (verses_data st') = fst ` set (verses_data st)"
    by (metis set_map)
  ultimately show ?thesis using NavigableString assms by (simp add: key_inv_def)
next
  case (Comment s)
  obtain st' where "text_node st s = Inr st'"
    "map fst (verses_data st') = map fst (verses_data st)"
    "current_verse_num st' = current_verse_num st"
    using text_node_Inr[OF assms] by blast
  moreover from this have "fst ` set (verses_data st') = fst ` set (verses_data st)"
    by (metis set_map)
  ultimately show ?thesis using Comment assms by (simp add: key_inv_def)
qed

lemma traverse_Inr:
  "key_inv st \<Longrightarrow> \<exists>st'. traverse st nds = Inr st' \<and> key_inv st' \<and>
     set (map fst (verses_data st')) = set (map fst (verses_data st)) \<union> set (verse_markers nds)"
proof (induction nds arbitrary: st)
  case Nil
  then show ?case by simp
next
  case (Cons nd nds)
  obtain st1 where s1: "step st nd = Inr st1" "key_inv st1"
    "map fst (verses_data st1) =
       (case marker_of nd of
          Some k \<Rightarrow> if k \<in> set (map fst (verses_data st)) then map fst (verses_data st)
                    else map fst (verses_data st) @ [k]
        | None \<Rightarrow> map fst (verses_data st))"
    using step_Inr[OF Cons.prems] by blast
  obtain st' where s2: "traverse st1 nds = Inr st'" "key_inv st'"
    "set (map fst (verses_data st')) = set (map fst (verses_data st1)) \<union> set (verse_markers nds)"
    using Cons.IH[OF s1(2)] by blast
  have "set (map fst (verses_data st1)) \<union> set (verse_markers nds)
      = set (map fst (verses_data st)) \<union> set (verse_markers (nd # nds))"
    using s1(3) by (auto split: option.splits if_splits)
  then show ?case using s1(1) s2 by simp
qed

subsection \<open>Reading the keys as integers\<close>

lemma isdigit_char_plain:
  "isdigit_char c \<Longrightarrow> \<not> isspace c \<and> c \<noteq> CHR ''-'' \<and> c \<noteq> CHR ''+'' \<and> c \<noteq> CHR ''_''"
  by (auto simp: isdigit_char_def isdecimal_char_def isspace_def)

lemma strip_id: "s = [] \<or> (\<not> isspace (hd s) \<and> \<not> isspace (last s)) \<Longrightarrow> strip s = s"
  by (cases s) (auto simp: strip_def lstrip_def rstrip_def dropWhile_eq_Cons_conv rev_swap[symmetric]
      intro!: dropWhile_eq_self_iff[THEN iffD2] simp: last_rev hd_rev split: if_splits)

lemma digits_ok_plain: "list_all (\<lambda>c. c \<noteq> CHR ''_'') s \<Longrightarrow> digits_ok s \<longleftrightarrow> isdecimal s"
  by (induction s rule: digits_ok.induct) (auto simp: isdecimal_def)

lemma int_strip_id:
  "s = [] \<or> (\<not> int_space (hd s) \<and> \<not> int_space (last s)) \<Longrightarrow> int_strip s = s"
  by (cases s) (auto simp: int_strip_def dropWhile_eq_Cons_conv rev_swap[symmetric]
      intro!: dropWhile_eq_self_iff[THEN iffD2] simp: last_rev hd_rev split: if_splits)

lemma isdigit_char_int_space: "isdigit_char c \<Longrightarrow> \<not> int_space c"
  by (auto simp: isdigit_char_def isdecimal_char_def int_space_def)

lemma py_int_isdigit:
  assumes "isdigit k"
  shows "py_int k = (if isdecimal k then Inr (decimal_value k)
                     else Inl (ValueError ''invalid literal for int() with base 10''))"
proof -
  from assms obtain c cs where k: "k = c # cs" by (cases k) (auto simp: isdigit_def)
  have all: "list_all isdigit_char k" using assms by (simp add: isdigit_def)
  then have plain: "\<forall>x \<in> set k. \<not> isspace x \<and> x \<noteq> CHR ''-'' \<and> x \<noteq> CHR ''+'' \<and> x \<noteq> CHR ''_''"
    using isdigit_char_plain by (auto simp: list_all_iff)
  have nsp: "\<forall>x \<in> set k. \<not> int_space x"
    using all isdigit_char_int_space by (auto simp: list_all_iff)
  have "hd k \<in> set k" "last k \<in> set k" using k by auto
  then have s: "int_strip k = k" using nsp int_strip_id by blast
  have c: "c \<noteq> CHR ''-''" "c \<noteq> CHR ''+''" using plain k by auto
  have u: "filter (\<lambda>x. x \<noteq> CHR ''_'') k = k" using plain by (simp add: filter_id_conv)
  have d: "digits_ok k \<longleftrightarrow> isdecimal k"
    using plain by (intro digits_ok_plain) (simp add: list_all_iff)
  show ?thesis unfolding py_int_def s using c u d by (simp add: k Let_def)
qed

lemma marker_of_isdigit: "marker_of nd = Some k \<Longrightarrow> isdigit k"
  by (cases nd) (auto simp: Let_def truthy_def split: if_splits)

lemma verse_markers_isdigit: "k \<in> set (verse_markers nds) \<Longrightarrow> isdigit k"
  by (induction nds) (auto simp: marker_of_isdigit split: option.splits)

lemma ints_of_isdigit:
  "list_all isdigit ks \<Longrightarrow>
   ints_of ks = (if list_all isdecimal ks then Inr (map decimal_value ks)
                 else Inl (ValueError ''invalid literal for int() with base 10''))"
  by (induction ks) (auto simp: py_int_isdigit)

lemma format_output_markers:
  assumes "list_all isdigit (map fst d)"
  shows "format_output charref d =
     (if d = [] then Inr []
      else if list_all isdecimal (map fst d)
      then Inr (map (make_verse charref d) [1..Max (decimal_value ` set (map fst d))])
      else Inl (ValueError ''invalid literal for int() with base 10''))"
  using assms by (simp add: format_output_def ints_of_isdigit image_image)

lemma make_verse_verse [simp]: "verse (make_verse charref d i) = str i"
  by (simp add: make_verse_def Let_def)

lemma strip_Nil [simp]: "strip [] = []"
  by (simp add: strip_def lstrip_def rstrip_def)

lemma make_verse_missing:
  assumes "str i \<notin> set (map fst d)"
  shows "rawText (make_verse charref d i) = [] \<and> readableText (make_verse charref d i) = []"
proof -
  have "map_of d (str i) = None" using assms by (simp add: map_of_eq_None_iff)
  then show ?thesis by (simp add: make_verse_def unescape_def replace_def Spec2Isabelle.split_def)
qed

subsection \<open>The result of \<open>parse_chapter_html\<close>\<close>

lemma find_container_Tag:
  assumes "find_container soup = Some nd"
  shows "\<exists>n cs ks. nd = Tag n cs ks"
proof -
  have "is_container nd" using assms by (auto simp: find_container_def find_Some_iff)
  then show ?thesis by (cases nd) auto
qed

lemma key_inv_init:
  "key_inv \<lparr>verses_data = [], current_verse_num = None, ignore_next_text_node_if_matches_num = False\<rparr>"
  by (simp add: key_inv_def)

lemma parse_chapter_html_format:
  assumes "find_container soup = Some (Tag n cs ks)"
  shows "\<exists>d. set (map fst d) = set (markers_observed soup) \<and>
     parse_chapter_html charref soup b v c =
       (case format_output charref d of
          Inl e \<Rightarrow> Inl e
        | Inr vs \<Rightarrow> Inr \<lparr>book = upper b, revision = v, chapter_number = str c, verses = vs\<rparr>)"
proof -
  obtain st where st: "traverse \<lparr>verses_data = [], current_verse_num = None,
        ignore_next_text_node_if_matches_num = False\<rparr> (descendants_of (clean ks)) = Inr st"
    and keys: "set (map fst (verses_data st)) = set (verse_markers (descendants_of (clean ks)))"
    using traverse_Inr[OF key_inv_init, of "descendants_of (clean ks)"] by auto
  have "set (map fst (verses_data st)) = set (markers_observed soup)"
    using keys assms by (simp add: markers_observed_def)
  moreover have "parse_chapter_html charref soup b v c =
       (case format_output charref (verses_data st) of
          Inl e \<Rightarrow> Inl e
        | Inr vs \<Rightarrow> Inr \<lparr>book = upper b, revision = v, chapter_number = str c, verses = vs\<rparr>)"
    using assms st by (simp add: parse_chapter_html_def)
  ultimately show ?thesis by blast
qed

lemma parse_chapter_html_absent:
  "find_container soup = None \<Longrightarrow>
   parse_chapter_html charref soup b v c = Inl (ValueError ''passage-content not found'')"
  by (simp add: parse_chapter_html_def)

lemma markers_observed_container:
  "markers_observed soup \<noteq> [] \<Longrightarrow> \<exists>n cs ks. find_container soup = Some (Tag n cs ks)"
  by (auto simp: markers_observed_def split: option.splits node.splits)

lemma parse_chapter_html_cases:
  assumes "find_container soup = Some (Tag n cs ks)"
  shows "(markers_observed soup = [] \<and>
          parse_chapter_html charref soup b v c =
            Inr \<lparr>book = upper b, revision = v, chapter_number = str c, verses = []\<rparr>)
       \<or> (markers_observed soup \<noteq> [] \<and> list_all isdecimal (markers_observed soup) \<and>
          (\<exists>d. set (map fst d) = set (markers_observed soup) \<and>
             parse_chapter_html charref soup b v c =
               Inr \<lparr>book = upper b, revision = v, chapter_number = str c,
                    verses = map (make_verse charref d)
                      [1..Max (decimal_value ` set (markers_observed soup))]\<rparr>))
       \<or> (\<not> list_all isdecimal (markers_observed soup) \<and>
          parse_chapter_html charref soup b v c =
            Inl (ValueError ''invalid literal for int() with base 10''))"
proof -
  obtain d where keys: "set (map fst d) = set (markers_observed soup)"
    and p: "parse_chapter_html charref soup b v c =
       (case format_output charref d of
          Inl e \<Rightarrow> Inl e
        | Inr vs \<Rightarrow> Inr \<lparr>book = upper b, revision = v, chapter_number = str c, verses = vs\<rparr>)"
    using parse_chapter_html_format[OF assms] by blast
  have "\<forall>k \<in> set (markers_observed soup). isdigit k"
    using assms verse_markers_isdigit by (auto simp: markers_observed_def)
  then have dig: "list_all isdigit (map fst d)"
    using keys by (simp add: list_all_iff)
  have dec: "list_all isdecimal (map fst d) \<longleftrightarrow> list_all isdecimal (markers_observed soup)"
    using keys by (simp add: list_all_iff)
  have emp: "d = [] \<longleftrightarrow> markers_observed soup = []"
    using keys by (metis map_is_Nil_conv set_empty)
  have mx: "Max (decimal_value ` set (map fst d)) = Max (decimal_value ` set (markers_observed soup))"
    using keys by simp
  show ?thesis
    unfolding p format_output_markers[OF dig] emp dec mx
    using keys by (cases "markers_observed soup = []") auto
qed

text \<open>
  Claim C1. When the container holds at least one verse marker, the verse records that
  \<open>parse_chapter_html\<close> returns carry the numbers \<open>1, 2, ..., max\<close> in ascending order
  and without a gap, \<open>max\<close> being the largest verse number among the markers; a number of
  that range that no marker carries is present with empty text. The records are returned
  whenever every marker is written in decimal digits.
\<close>

theorem parse_chapter_html_dense:
  assumes "markers_observed soup \<noteq> []"
  shows "(list_all isdecimal (markers_observed soup) \<longrightarrow>
            (\<exists>r. parse_chapter_html charref soup b v c = Inr r))
       \<and> (\<forall>r. parse_chapter_html charref soup b v c = Inr r \<longrightarrow>
            map verse (verses r) = map str [1..Max (decimal_value ` set (markers_observed soup))]
            \<and> (\<forall>x \<in> set (verses r). verse x \<notin> set (markers_observed soup) \<longrightarrow>
                  rawText x = [] \<and> readableText x = []))"
proof -
  obtain n cs ks where "find_container soup = Some (Tag n cs ks)"
    using markers_observed_container[OF assms] by blast
  from parse_chapter_html_cases[OF this, of charref b v c] assms
  consider (ok) d where "list_all isdecimal (markers_observed soup)"
      "set (map fst d) = set (markers_observed soup)"
      "parse_chapter_html charref soup b v c =
         Inr \<lparr>book = upper b, revision = v, chapter_number = str c,
              verses = map (make_verse charref d)
                [1..Max (decimal_value ` set (markers_observed soup))]\<rparr>"
    | (bad) "\<not> list_all isdecimal (markers_observed soup)"
      "parse_chapter_html charref soup b v c =
         Inl (ValueError ''invalid literal for int() with base 10'')"
    by blast
  then show ?thesis
  proof cases
    case ok
    have "map verse (map (make_verse charref d) is) = map str is" for "is"
      by (simp add: comp_def)
    moreover have "str i \<notin> set (markers_observed soup) \<longrightarrow>
        rawText (make_verse charref d i) = [] \<and> readableText (make_verse charref d i) = []" for i
      using make_verse_missing[of i d charref] ok(2) by simp
    ultimately show ?thesis using ok(1,3) by simp
  next
    case bad
    then show ?thesis by simp
  qed
qed

theorem parse_chapter_html_dense_witness:
  "markers_observed verse_two_only \<noteq> [] \<and> list_all isdecimal (markers_observed verse_two_only) \<and>
   (\<exists>r. parse_chapter_html (\<lambda>s. s) verse_two_only ''gen'' ''NTV'' 1 = Inr r \<and>
        map verse (verses r) = [''1'', ''2''] \<and> rawText (hd (verses r)) = [])"
proof -
  have h: "markers_observed verse_two_only \<noteq> []" by code_simp
  have d: "list_all isdecimal (markers_observed verse_two_only)" by code_simp
  have m: "map str [1..Max (decimal_value ` set (markers_observed verse_two_only))] = [''1'', ''2'']"
    by code_simp
  have n: "''1'' \<notin> set (markers_observed verse_two_only)" by code_simp
  from parse_chapter_html_dense[OF h, of "\<lambda>s. s" "''gen''" "''NTV''" 1] d
  obtain r where r: "parse_chapter_html (\<lambda>s. s) verse_two_only ''gen'' ''NTV'' 1 = Inr r"
    "map verse (verses r) = [''1'', ''2'']"
    "\<forall>x \<in> set (verses r). verse x \<notin> set (markers_observed verse_two_only) \<longrightarrow>
                  rawText x = [] \<and> readableText x = []"
    unfolding m by blast
  from r(2) obtain x xs where xs: "verses r = x # xs" "verse x = ''1''" by (cases "verses r") auto
  then have "rawText x = []" using r(3) n by simp
  then show ?thesis using h d r xs by simp
qed

text \<open>
  Claim C2. The label of a verse marker or of a chapter-number marker never reaches the
  text of a verse. The code compares the label with the current verse number, which for a
  chapter-number marker is always \<open>1\<close>: in chapter 3 the label \<open>3\<close> is not suppressed
  and opens the text of verse 1.
\<close>

theorem chapternum_label_leaks:
  "parse_chapter_html (\<lambda>s. s) genesis3 ''gen'' ''NTV'' 3 =
     Inr \<lparr>book = ''GEN'', revision = ''NTV'', chapter_number = ''3'',
          verses = [\<lparr>verse = ''1'', rawText = ''3 Now the serpent'',
                     readableText = ''3 Now the serpent''\<rparr>]\<rparr>"
  by code_simp

text \<open>
  Claim C10. With the container present, \<open>parse_chapter_html\<close> returns normally. The
  traversal does (\<open>traverse_Inr\<close>: the lookups in \<open>verses_data\<close> never fail), but a marker
  that \<open>isdigit\<close> accepts and \<open>int\<close> rejects, such as a superscript two, makes the formatting
  of the output raise \<open>ValueError\<close>.
\<close>

theorem superscript_marker_raises:
  "find_container superscript_marker \<noteq> None \<and>
   parse_chapter_html (\<lambda>s. s) superscript_marker ''gen'' ''NTV'' 1 =
     Inl (ValueError ''invalid literal for int() with base 10'')"
  by code_simp

lemma container_absent_or_empty:
  "(find_container soup = None \<longrightarrow>
        parse_chapter_html charref soup book_code version chap =
          Inl (ValueError ''passage-content not found''))
   \<and> (find_container soup \<noteq> None \<and> markers_observed soup = [] \<longrightarrow>
        parse_chapter_html charref soup book_code version chap =
          Inr \<lparr>book = upper book_code, revision = version, chapter_number = str chap,
               verses = []\<rparr>
        \<and> grab (Html soup) charref version book_code chap out_dir fs = (None, fs))"
proof (cases "find_container soup")
  case None
  then show ?thesis by (simp add: parse_chapter_html_absent)
next
  case (Some nd)
  then obtain n cs ks where c: "find_container soup = Some (Tag n cs ks)"
    using find_container_Tag by blast
  have "markers_observed soup = [] \<longrightarrow>
        parse_chapter_html charref soup book_code version chap =
          Inr \<lparr>book = upper book_code, revision = version, chapter_number = str chap,
               verses = []\<rparr>"
    using parse_chapter_html_cases[OF c, of charref book_code version chap] by auto
  then show ?thesis using c by (auto simp: grab_def)
qed

lemma empty_container_saves_nothing:
  "find_container empty_container \<noteq> None \<and> markers_observed empty_container = [] \<and>
   parse_chapter_html (\<lambda>s. s) empty_container ''gen'' ''NTV'' 51 =
     Inr \<lparr>book = ''GEN'', revision = ''NTV'', chapter_number = ''51'', verses = []\<rparr> \<and>
   grab (Html empty_container) (\<lambda>s. s) ''NTV'' ''gen'' 51 ''data/NTV/01_gen'' Map.empty
     = (None, Map.empty) \<and>
   find_container [Tag ''p'' [] [NavigableString ''Not found'']] = None \<and>
   parse_chapter_html (\<lambda>s. s) [Tag ''p'' [] [NavigableString ''Not found'']] ''gen'' ''NTV'' 51 =
     Inl (ValueError ''passage-content not found'')"
proof -
  have c: "find_container empty_container \<noteq> None" by code_simp
  have m: "markers_observed empty_container = []" by code_simp
  have u: "upper ''gen'' = ''GEN''" "str 51 = ''51''" by code_simp+
  have a: "find_container [Tag ''p'' [] [NavigableString ''Not found'']] = None" by code_simp
  from container_absent_or_empty[of empty_container "\<lambda>s. s" "''gen''" "''NTV''" 51
      "''data/NTV/01_gen''" Map.empty] c m
  have "parse_chapter_html (\<lambda>s. s) empty_container ''gen'' ''NTV'' 51 =
     Inr \<lparr>book = ''GEN'', revision = ''NTV'', chapter_number = ''51'', verses = []\<rparr>"
    "grab (Html empty_container) (\<lambda>s. s) ''NTV'' ''gen'' 51 ''data/NTV/01_gen'' Map.empty
     = (None, Map.empty)"
    by (simp_all add: u)
  moreover from container_absent_or_empty[of
      "[Tag ''p'' [] [NavigableString ''Not found'']]" "\<lambda>s. s" "''gen''" "''NTV''" 51
      "''data/NTV/01_gen''" Map.empty] a
  have "parse_chapter_html (\<lambda>s. s) [Tag ''p'' [] [NavigableString ''Not found'']] ''gen'' ''NTV'' 51 =
     Inl (ValueError ''passage-content not found'')" by simp
  ultimately show ?thesis using c m a by simp
qed

text \<open>
  Claim C7. \<open>parse_chapter_html\<close> fails with its \<open>ValueError\<close> exactly when the container is
  absent; with the container present and no verse marker in it, it returns a record with
  no verse, and \<open>grab\<close> then writes no file. The second half holds
  (\<open>container_absent_or_empty\<close>), and so does the failure when the container is absent.
  But the failure is not confined to that case: with the container present and a marker
  that \<open>isdigit\<close> accepts and \<open>int\<close> rejects, \<open>parse_chapter_html\<close> fails with a
  \<open>ValueError\<close> as well, which the handler of \<open>grab\<close> at line 291 does not tell from the
  other.
\<close>

theorem container_present_yet_ValueError:
  "find_container third_verse_superscript \<noteq> None
   \<and> parse_chapter_html (\<lambda>s. s) third_verse_superscript ''gen'' ''NTV'' 1 =
       Inl (ValueError ''invalid literal for int() with base 10'')
   \<and> fst (grab (Html third_verse_superscript) (\<lambda>s. s) ''NTV'' ''gen'' 1 ''data/NTV/01_gen''
            Map.empty) = None"
  by code_simp

subsection \<open>Normalised text\<close>

lemma space_run_append:
  "space_run (xs @ ys) \<longleftrightarrow>
     space_run xs \<or> space_run ys \<or> (xs \<noteq> [] \<and> ys \<noteq> [] \<and> last xs = CHR '' '' \<and> hd ys = CHR '' '')"
proof (induction xs)
  case Nil
  show ?case by simp
next
  case (Cons a xs)
  note IH = Cons.IH
  show ?case
  proof (cases xs)
    case Nil
    then show ?thesis by (cases ys) auto
  next
    case (Cons b cs)
    then show ?thesis using IH by auto
  qed
qed

lemma no_space_no_run: "\<forall>c \<in> set w. \<not> isspace c \<Longrightarrow> \<not> space_run w"
proof (induction w rule: space_run.induct)
  case (1 a b cs)
  have "isspace (CHR '' '')" by (simp add: isspace_def)
  then have "a \<noteq> CHR '' ''" using 1(2) by auto
  then show ?case using 1 by simp
qed simp_all

lemma isspace_space: "isspace (CHR '' '')"
  by (simp add: isspace_def)

lemma tidy_token: "t \<noteq> [] \<Longrightarrow> \<forall>c \<in> set t. \<not> isspace c \<Longrightarrow> tidy t"
  by (simp add: tidy_def no_space_no_run)

lemma tidy_cons_token:
  assumes w: "w \<noteq> []" "\<forall>c \<in> set w. \<not> isspace c" and j: "tidy j" "j \<noteq> []"
  shows "tidy (w @ '' '' @ j)"
proof -
  have jc: "\<forall>c \<in> set j. c = CHR '' '' \<or> \<not> isspace c" and jr: "\<not> space_run j"
    and jh: "\<not> isspace (hd j)" and jl: "\<not> isspace (last j)"
    using j by (simp_all add: tidy_def)
  obtain x xs where jx: "j = x # xs" using j(2) by (cases j) simp_all
  have hd_j: "x \<noteq> CHR '' ''"
  proof
    assume "x = CHR '' ''"
    then have "isspace x" by (simp add: isspace_space)
    then show False using jh jx by simp
  qed
  have lw: "last w \<in> set w" and hw: "hd w \<in> set w" using w(1) by simp_all
  have last_w: "last w \<noteq> CHR '' ''"
  proof
    assume "last w = CHR '' ''"
    then have "isspace (last w)" by (simp add: isspace_space)
    then show False using lw w(2) by simp
  qed
  have hd_w: "\<not> isspace (hd w)" using hw w(2) by simp
  have r1: "\<not> space_run (CHR '' '' # j)" using jr hd_j by (simp add: jx)
  have r2: "\<not> space_run w" using w(2) by (rule no_space_no_run)
  have run: "\<not> space_run (w @ CHR '' '' # j)"
    using r1 r2 last_w w(1) by (simp add: space_run_append[of w "CHR '' '' # j"])
  have chars: "\<forall>c \<in> set (w @ CHR '' '' # j). c = CHR '' '' \<or> \<not> isspace c"
    using w(2) jc by auto
  have e1: "\<not> isspace (hd (w @ CHR '' '' # j))" using hd_w w(1) by (simp add: hd_append)
  have e2: "\<not> isspace (last (w @ CHR '' '' # j))" using jl j(2) by simp
  show ?thesis unfolding tidy_def using run chars e1 e2 by simp
qed

lemma join_Nil_iff: "\<forall>t \<in> set ts. t \<noteq> [] \<Longrightarrow> (join sep ts = []) = (ts = [])"
  by (induction sep ts rule: join.induct) auto

lemma join_tidy:
  "\<forall>t \<in> set ts. t \<noteq> [] \<and> (\<forall>c \<in> set t. \<not> isspace c) \<Longrightarrow> tidy (join '' '' ts)"
proof (induction ts)
  case Nil
  then show ?case by (simp add: tidy_def)
next
  case (Cons w ts)
  show ?case
  proof (cases ts)
    case Nil
    then show ?thesis using Cons.prems by (simp add: tidy_token)
  next
    case (Cons v vs)
    have t: "tidy (join '' '' ts)" using Cons.IH Cons.prems by simp
    have n: "join '' '' ts \<noteq> []" using Cons.prems Cons by (simp add: join_Nil_iff)
    have "tidy (w @ '' '' @ join '' '' ts)"
      using Cons.prems t n by (intro tidy_cons_token) simp_all
    then show ?thesis using Cons by simp
  qed
qed

lemma split_ws_tokens:
  "\<forall>c \<in> set w. \<not> isspace c \<Longrightarrow> t \<in> set (split_ws w cs) \<Longrightarrow>
   t \<noteq> [] \<and> (\<forall>c \<in> set t. \<not> isspace c)"
proof (induction cs arbitrary: w)
  case Nil
  then show ?case by (auto split: if_splits)
next
  case (Cons a cs)
  show ?case
  proof (cases "isspace a")
    case True
    then have "t = w \<and> w \<noteq> [] \<or> t \<in> set (split_ws [] cs)"
      using Cons.prems(2) by (auto split: if_splits)
    then show ?thesis using Cons.prems(1) Cons.IH[of "[]"] by auto
  next
    case False
    then have "t \<in> set (split_ws (w @ [a]) cs)" using Cons.prems(2) by simp
    moreover have "\<forall>c \<in> set (w @ [a]). \<not> isspace c" using False Cons.prems(1) by simp
    ultimately show ?thesis using Cons.IH[of "w @ [a]"] by blast
  qed
qed

lemma split_tokens: "\<forall>t \<in> set (split s). t \<noteq> [] \<and> (\<forall>c \<in> set t. \<not> isspace c)"
  using split_ws_tokens[of "[]" _ s] by (simp add: Spec2Isabelle.split_def)

lemma tidy_strip:
  assumes "tidy s"
  shows "strip s = s"
proof (cases "s = []")
  case True
  then show ?thesis by (simp add: strip_id)
next
  case False
  then have "\<not> isspace (hd s) \<and> \<not> isspace (last s)" using assms by (simp add: tidy_def)
  then show ?thesis by (simp add: strip_id)
qed

lemma make_verse_tidy: "tidy (readableText (make_verse charref d i))"
proof -
  have "tidy (join '' '' (split s))" for s
    using split_tokens[of s] by (rule join_tidy)
  then show ?thesis by (simp add: make_verse_def Let_def tidy_strip)
qed

lemma tidy_chars:
  assumes "tidy s"
  shows "CHR 0x0A \<notin> set s \<and> CHR 0x09 \<notin> set s"
proof -
  have all: "\<forall>c \<in> set s. c = CHR '' '' \<or> \<not> isspace c" using assms by (simp add: tidy_def)
  have "CHR 0x0A \<notin> set s"
  proof
    assume "CHR 0x0A \<in> set s"
    with all have "CHR 0x0A = CHR '' '' \<or> \<not> isspace (CHR 0x0A)" by (rule bspec)
    then show False by (simp add: isspace_def)
  qed
  moreover have "CHR 0x09 \<notin> set s"
  proof
    assume "CHR 0x09 \<in> set s"
    with all have "CHR 0x09 = CHR '' '' \<or> \<not> isspace (CHR 0x09)" by (rule bspec)
    then show False by (simp add: isspace_def)
  qed
  ultimately show ?thesis by simp
qed

lemma format_output_make:
  "format_output charref d = Inr vs \<Longrightarrow> x \<in> set vs \<Longrightarrow> \<exists>i. x = make_verse charref d i"
  by (auto simp: format_output_def split: if_splits sum.splits)

lemma parse_chapter_html_make:
  assumes "parse_chapter_html charref soup b v c = Inr r" "x \<in> set (verses r)"
  shows "\<exists>d i. x = make_verse charref d i"
proof -
  from assms(1) obtain d where "format_output charref d = Inr (verses r)"
    by (auto simp: parse_chapter_html_def split: option.splits node.splits sum.splits)
  then show ?thesis using assms(2) format_output_make by blast
qed

text \<open>
  Claim C9. In every verse record that \<open>parse_chapter_html\<close> returns, \<open>readableText\<close>
  holds no newline, no tab and no run of two or more spaces, and neither begins nor ends
  with white space.
\<close>

theorem readableText_normalised:
  assumes "parse_chapter_html charref soup b v c = Inr r" and "x \<in> set (verses r)"
  shows "CHR 0x0A \<notin> set (readableText x) \<and> CHR 0x09 \<notin> set (readableText x)
       \<and> \<not> space_run (readableText x)
       \<and> (readableText x \<noteq> [] \<longrightarrow>
            \<not> isspace (hd (readableText x)) \<and> \<not> isspace (last (readableText x)))"
proof -
  obtain d i where "x = make_verse charref d i"
    using parse_chapter_html_make[OF assms] by blast
  then have t: "tidy (readableText x)" by (simp add: make_verse_tidy)
  then show ?thesis using tidy_chars[OF t] by (simp add: tidy_def)
qed

theorem readableText_normalised_witness:
  "(\<exists>r. parse_chapter_html (\<lambda>s. s) verse_two_only ''gen'' ''NTV'' 1 = Inr r \<and>
     (\<exists>x \<in> set (verses r). rawText x = ''the  earth'' @ [CHR 0x0A] @ '' was'' \<and>
         readableText x = ''the earth was'' \<and>
         CHR 0x0A \<notin> set (readableText x) \<and> CHR 0x09 \<notin> set (readableText x) \<and>
         \<not> space_run (readableText x) \<and>
         \<not> isspace (hd (readableText x)) \<and> \<not> isspace (last (readableText x))))"
proof -
  let ?x = "\<lparr>verse = ''2'', rawText = ''the  earth'' @ [CHR 0x0A] @ '' was'',
             readableText = ''the earth was''\<rparr>"
  let ?r = "\<lparr>book = ''GEN'', revision = ''NTV'', chapter_number = ''1'',
             verses = [\<lparr>verse = ''1'', rawText = [], readableText = []\<rparr>, ?x]\<rparr>"
  have p: "parse_chapter_html (\<lambda>s. s) verse_two_only ''gen'' ''NTV'' 1 = Inr ?r" by code_simp
  have m: "?x \<in> set (verses ?r)" by simp
  from readableText_normalised[OF p m] have
    "CHR 0x0A \<notin> set (readableText ?x) \<and> CHR 0x09 \<notin> set (readableText ?x) \<and>
     \<not> space_run (readableText ?x) \<and>
     \<not> isspace (hd (readableText ?x)) \<and> \<not> isspace (last (readableText ?x))"
    by simp
  then show ?thesis using p m by (intro exI[of _ ?r] conjI bexI[of _ ?x]) simp_all
qed

section \<open>Properties of the Resolver\<close>
















section \<open>Properties of the Orchestrator\<close>








section \<open>Properties of the Aggregator\<close>

text \<open>
  Claim C8. For a verse element with a verse identifier that \<open>int\<close> accepts, the text
  emitted is that of \<open>readableText\<close> when the field is present with a non-empty string,
  and that of \<open>text\<close> when \<open>readableText\<close> is absent or holds a value that counts as
  false (the empty string, \<open>null\<close>).
\<close>

theorem verse_text_source:
  assumes "map_of d ''verse'' = Some x" and "json_int x = Inr i"
  shows "(map_of d ''readableText'' = Some (JStr s) \<and> s \<noteq> [] \<longrightarrow>
            verse_of charref (JDict d) =
              Inr \<lparr>verse_number = i, verse_text = unescape charref (strip s)\<rparr>)
       \<and> ((map_of d ''readableText'' = None \<or>
             (\<exists>r. map_of d ''readableText'' = Some r \<and> \<not> truth r))
            \<and> map_of d ''text'' = Some (JStr t) \<longrightarrow>
            verse_of charref (JDict d) =
              Inr \<lparr>verse_number = i, verse_text = unescape charref (strip t)\<rparr>)"
  using assms by (auto simp: verse_of_def clean_text_def)

theorem verse_text_source_witness:
  "map_of [(''verse'', JStr ''7''), (''text'', JStr '' raw  text ''),
           (''readableText'', JStr ''raw text'')] ''verse'' = Some (JStr ''7'')
   \<and> json_int (JStr ''7'') = Inr 7
   \<and> verse_of (\<lambda>s. s) (JDict [(''verse'', JStr ''7''), (''text'', JStr '' raw  text ''),
           (''readableText'', JStr ''raw text'')])
       = Inr \<lparr>verse_number = 7, verse_text = ''raw text''\<rparr>
   \<and> map_of [(''verse'', JStr ''7''), (''text'', JStr '' raw  text '')] ''readableText'' = None
   \<and> verse_of (\<lambda>s. s) (JDict [(''verse'', JStr ''7''), (''text'', JStr '' raw  text '')])
       = Inr \<lparr>verse_number = 7, verse_text = ''raw  text''\<rparr>"
proof -
  let ?d = "[(''verse'', JStr ''7''), (''text'', JStr '' raw  text ''),
           (''readableText'', JStr ''raw text'')]"
  let ?e = "[(''verse'', JStr ''7''), (''text'', JStr '' raw  text '')]"
  have v: "map_of ?d ''verse'' = Some (JStr ''7'')" "map_of ?e ''verse'' = Some (JStr ''7'')"
    by simp_all
  have i: "json_int (JStr ''7'') = Inr 7" by code_simp
  have r: "map_of ?d ''readableText'' = Some (JStr ''raw text'')" "''raw text'' \<noteq> []"
    "map_of ?e ''readableText'' = None" "map_of ?e ''text'' = Some (JStr '' raw  text '')"
    by simp_all
  have s: "unescape (\<lambda>s. s) (strip ''raw text'') = ''raw text''"
    "unescape (\<lambda>s. s) (strip '' raw  text '') = ''raw  text''" by code_simp+
  from verse_text_source[OF v(1) i, of "''raw text''" "\<lambda>s. s" "[]"] r
  have "verse_of (\<lambda>s. s) (JDict ?d) = Inr \<lparr>verse_number = 7, verse_text = ''raw text''\<rparr>"
    unfolding s by blast
  moreover from verse_text_source[OF v(2) i, of "[]" "\<lambda>s. s" "'' raw  text ''"] r
  have "verse_of (\<lambda>s. s) (JDict ?e) = Inr \<lparr>verse_number = 7, verse_text = ''raw  text''\<rparr>"
    unfolding s by blast
  ultimately show ?thesis using v i r by simp
qed

text \<open>
  An element whose \<open>readableText\<close> is present and empty: the text emitted is that of
  \<open>text\<close>.
\<close>

theorem empty_readableText_falls_back:
  "subscript empty_readable ''readableText'' = Inr (JStr [])
   \<and> verse_of (\<lambda>s. s) empty_readable =
       Inr \<lparr>verse_number = 1, verse_text = ''In the beginning''\<rparr>"
  by code_simp

text \<open>
  Claim C4. A chapter file with malformed JSON, or with a verse element that lacks a
  required field, is reported and skipped, and the other files of the version are
  processed as if it were not there. In the code the handler that reports the file raises
  \<open>NameError\<close>, which ends \<open>parse_version\<close>: with the file the version yields no document,
  without it the document has the chapter of the other file.
\<close>

theorem malformed_file_aborts_version:
  "parse_version (\<lambda>s. s) ''NTV''
      [(''01_gen'', Folder [(''gen.001.json'', Malformed), (''gen.002.json'', chapter_json)])]
     = Inl NameError
   \<and> parse_version (\<lambda>s. s) ''NTV''
      [(''01_gen'', Folder [(''gen.001.json'', missing_verse_key), (''gen.002.json'', chapter_json)])]
     = Inl NameError
   \<and> parse_version (\<lambda>s. s) ''NTV'' [(''01_gen'', Folder [(''gen.002.json'', chapter_json)])]
     = Inr \<lparr>name = ''Bible NTV'', metadata_source = ''parsedBible repo'',
            metadata_revision = ''NTV'',
            books = [\<lparr>book_number = 1, book_name = ''Genesis'',
                      chapters = [\<lparr>chapter_no = 2,
                         chapter_verses = [\<lparr>verse_number = 1,
                                             verse_text = ''In the beginning''\<rparr>]\<rparr>]\<rparr>]\<rparr>"
  by code_simp

subsection \<open>The order of books and chapters: digits and names\<close>

lemma foldl_decimal:
  "foldl (\<lambda>acc c. 10 * acc + digit_value c) a cs =
   a * 10 ^ length cs + foldl (\<lambda>acc c. 10 * acc + digit_value c) 0 cs"
proof (induction cs arbitrary: a)
  case Nil
  then show ?case by simp
next
  case (Cons c cs)
  show ?case
    using Cons.IH[of "10 * a + digit_value c"] Cons.IH[of "digit_value c"]
    by (simp add: algebra_simps)
qed

lemma decimal_value_Cons:
  "decimal_value (c # cs) = digit_value c * 10 ^ length cs + decimal_value cs"
  using foldl_decimal[of "digit_value c" cs] by (simp add: decimal_value_def)

lemma digit_value_range: "isdecimal_char c \<Longrightarrow> 0 \<le> digit_value c \<and> digit_value c \<le> 9"
  by (simp add: isdecimal_char_def less_eq_char_def digit_value_def)

lemma digit_value_less: "c < e \<Longrightarrow> digit_value c < digit_value e"
  by (simp add: less_char_def digit_value_def)

lemma decimal_value_bounds:
  "list_all isdecimal_char cs \<Longrightarrow> 0 \<le> decimal_value cs \<and> decimal_value cs < 10 ^ length cs"
proof (induction cs)
  case Nil
  then show ?case by (simp add: decimal_value_def)
next
  case (Cons c cs)
  define p :: int where "p = 10 ^ length cs"
  have ih: "0 \<le> decimal_value cs" "decimal_value cs < p" using Cons by (simp_all add: p_def)
  have d: "0 \<le> digit_value c" "digit_value c \<le> 9" using Cons.prems digit_value_range by simp_all
  have p: "0 \<le> p" by (simp add: p_def)
  have "digit_value c * p \<le> 9 * p" using d(2) p by (rule mult_right_mono)
  moreover have "0 \<le> digit_value c * p" using d(1) p by simp
  ultimately have "0 \<le> digit_value c * p + decimal_value cs"
    "digit_value c * p + decimal_value cs < 10 * p" using ih by linarith+
  then show ?case by (simp add: decimal_value_Cons p_def)
qed

lemma decimal_value_lex:
  "length ds = length es \<Longrightarrow> list_all isdecimal_char ds \<Longrightarrow> list_all isdecimal_char es \<Longrightarrow>
   ds < es \<Longrightarrow> decimal_value ds < decimal_value es"
proof (induction ds es rule: list_induct2)
  case Nil
  then show ?case by simp
next
  case (Cons c ds e es)
  define p :: int where "p = 10 ^ length ds"
  have p: "0 \<le> p" by (simp add: p_def)
  have bd: "decimal_value ds < p" and be: "0 \<le> decimal_value es"
    using Cons.prems decimal_value_bounds[of ds] decimal_value_bounds[of es] by (simp_all add: p_def)
  have v: "decimal_value (c # ds) = digit_value c * p + decimal_value ds"
    "decimal_value (e # es) = digit_value e * p + decimal_value es"
    using Cons.hyps by (simp_all add: decimal_value_Cons p_def)
  from Cons.prems(3) consider "c < e" | "c = e" "ds < es" by auto
  then show ?case
  proof cases
    case 1
    then have "digit_value c + 1 \<le> digit_value e" using digit_value_less[of c e] by simp
    then have "(digit_value c + 1) * p \<le> digit_value e * p" using p by (rule mult_right_mono)
    then have "digit_value c * p + p \<le> digit_value e * p" by (simp add: algebra_simps)
    then show ?thesis unfolding v using bd be by linarith
  next
    case 2
    then have "decimal_value ds < decimal_value es" using Cons by simp
    then show ?thesis unfolding v using 2 by simp
  qed
qed

lemma append_less_cancel: "(p @ x < p @ y) = (x < y)" for x :: string
  by (induction p) simp_all

lemma append_less_same_length:
  "length ds = length es \<Longrightarrow> ds @ s < es @ s \<Longrightarrow> ds < es" for s :: string
  by (induction ds es rule: list_induct2) auto

lemma decimal_value_zero: "decimal_value (CHR ''0'' # cs) = decimal_value cs"
  by (simp add: decimal_value_def digit_value_def)

lemma chapter_number_of_value: "chapter_number_of ds = decimal_value ds"
proof (induction ds)
  case Nil
  then show ?case by (simp add: chapter_number_of_def decimal_value_def digit_value_def)
next
  case (Cons c ds)
  show ?case
  proof (cases "c = CHR ''0''")
    case True
    then show ?thesis using Cons by (simp add: chapter_number_of_def decimal_value_zero)
  next
    case False
    then show ?thesis by (simp add: chapter_number_of_def)
  qed
qed

subsection \<open>File names of one width\<close>

lemma not_decimal_dot: "\<not> isdecimal_char (CHR ''.'')"
  by (simp add: isdecimal_char_def)

lemma match_chapter_file_digits:
  assumes "list_all isdecimal_char ds"
  shows "match_chapter_file abbr (abbr @ ''.'' @ ds @ ''.json'') = (if ds = [] then None else Some ds)"
proof -
  have all: "\<forall>x \<in> set ds. isdecimal_char x" using assms by (simp add: list_all_iff)
  have t: "takeWhile isdecimal_char (ds @ ''.json'') = ds"
    using all by (simp add: not_decimal_dot)
  have d: "dropWhile isdecimal_char (ds @ ''.json'') = ''.json''"
    using all by (simp add: not_decimal_dot)
  have s: "startswith (abbr @ ''.'') (abbr @ ''.'' @ ds @ ''.json'')"
    by (simp add: startswith_def)
  have r: "drop (length abbr + 1) (abbr @ ''.'' @ ds @ ''.json'') = ds @ ''.json''" by simp
  show ?thesis unfolding match_chapter_file_def Let_def r t d using s
    by (simp add: startswith_def)
qed

lemma well_named_less:
  assumes f: "well_named w abbr f" and g: "well_named w abbr g" and "f < g"
  obtains ds es where "f = abbr @ ''.'' @ ds @ ''.json''" "g = abbr @ ''.'' @ es @ ''.json''"
    "list_all isdecimal_char ds" "list_all isdecimal_char es"
    "decimal_value ds < decimal_value es"
proof -
  define ds where "ds = take w (drop (length abbr + 1) f)"
  define es where "es = take w (drop (length abbr + 1) g)"
  have fd: "length ds = w" "list_all isdecimal_char ds" "f = abbr @ ''.'' @ ds @ ''.json''"
    using f by (simp_all add: well_named_def Let_def ds_def)
  have ge: "length es = w" "list_all isdecimal_char es" "g = abbr @ ''.'' @ es @ ''.json''"
    using g by (simp_all add: well_named_def Let_def es_def)
  have "(abbr @ ''.'') @ (ds @ ''.json'') < (abbr @ ''.'') @ (es @ ''.json'')"
    using \<open>f < g\<close> fd(3) ge(3) by simp
  then have "ds @ ''.json'' < es @ ''.json''" by (simp only: append_less_cancel)
  then have "ds < es" using fd(1) ge(1) append_less_same_length[of ds es "''.json''"] by simp
  then have "decimal_value ds < decimal_value es"
    using decimal_value_lex[of ds es] fd ge by simp
  then show ?thesis using that fd ge by blast
qed

lemma nums_member:
  "n \<in> set (nums abbr fs) \<Longrightarrow>
   \<exists>f c ds. (f, c) \<in> set fs \<and> match_chapter_file abbr f = Some ds \<and> n = chapter_number_of ds"
proof (induction fs)
  case Nil
  then show ?case by simp
next
  case (Cons a fs)
  obtain f c where a: "a = (f, c)" by (cases a)
  show ?case
  proof (cases "match_chapter_file abbr f")
    case None
    then show ?thesis using Cons a by auto
  next
    case (Some ds)
    then have "n = chapter_number_of ds \<or> n \<in> set (nums abbr fs)" using Cons.prems a by simp
    then show ?thesis using Cons.IH Some a by auto
  qed
qed

lemma nums_sorted:
  assumes "sorted_wrt (<) (map fst fs)" and "\<forall>(f, c) \<in> set fs. well_named w abbr f"
  shows "sorted_wrt (<) (nums abbr fs)"
  using assms
proof (induction fs)
  case Nil
  then show ?case by simp
next
  case (Cons a fs)
  obtain f c where a: "a = (f, c)" by (cases a)
  have ih: "sorted_wrt (<) (nums abbr fs)" using Cons by simp
  have wf: "well_named w abbr f" using Cons.prems(2) a by simp
  show ?case
  proof (cases "match_chapter_file abbr f")
    case None
    then show ?thesis using ih a by simp
  next
    case (Some ds)
    have "chapter_number_of ds < n" if mem: "n \<in> set (nums abbr fs)" for n
    proof -
      obtain g c' es where g: "(g, c') \<in> set fs" "match_chapter_file abbr g = Some es"
        "n = chapter_number_of es" using nums_member[OF mem] by blast
      have wg: "well_named w abbr g" using Cons.prems(2) g(1) by auto
      have "f < g" using Cons.prems(1) g(1) a by force
      from well_named_less[OF wf wg this] obtain ds' es' where
        n: "f = abbr @ ''.'' @ ds' @ ''.json''" "g = abbr @ ''.'' @ es' @ ''.json''"
        "list_all isdecimal_char ds'" "list_all isdecimal_char es'"
        "decimal_value ds' < decimal_value es'" by blast
      have "ds = ds'" using Some n(1,3) match_chapter_file_digits[of ds' abbr]
        by (simp split: if_splits)
      moreover have "es = es'" using g(2) n(2,4) match_chapter_file_digits[of es' abbr]
        by (simp split: if_splits)
      ultimately show ?thesis using n(5) g(3) by (simp add: chapter_number_of_value)
    qed
    then show ?thesis using ih Some a by simp
  qed
qed

subsection \<open>The loops keep what is sorted\<close>

lemma read_chapter_Added:
  "read_chapter charref n c = Inr (Added ch) \<Longrightarrow> chapter_no ch = n"
  by (auto simp: read_chapter_def print_to_sys_stderr_def
      split: content.splits sum.splits if_splits error.splits)

lemma sorted_wrt_drop_middle:
  "sorted_wrt P (xs @ y # ys) \<Longrightarrow> sorted_wrt P (xs @ ys)"
  by (auto simp: sorted_wrt_append)

lemma chapter_files_sorted:
  "chapter_files charref abbr fs acc = Inr chs \<Longrightarrow>
   sorted_wrt (<) (map chapter_no acc @ nums abbr fs) \<Longrightarrow>
   sorted_wrt (<) (map chapter_no chs)"
proof (induction fs arbitrary: acc)
  case Nil
  then show ?case by simp
next
  case (Cons a fs)
  obtain f c where a: "a = (f, c)" by (cases a)
  show ?case
  proof (cases "match_chapter_file abbr f")
    case None
    then show ?thesis using Cons a by simp
  next
    case (Some ds)
    have s: "sorted_wrt (<) (map chapter_no acc @ chapter_number_of ds # nums abbr fs)"
      using Cons.prems(2) Some a by simp
    show ?thesis
    proof (cases "read_chapter charref (chapter_number_of ds) c")
      case (Inl e)
      then show ?thesis using Cons.prems(1) Some a by simp
    next
      case (Inr out)
      show ?thesis
      proof (cases out)
        case (Added ch)
        then have "chapter_no ch = chapter_number_of ds" using Inr read_chapter_Added by blast
        then have "sorted_wrt (<) (map chapter_no (acc @ [ch]) @ nums abbr fs)" using s by simp
        moreover have "chapter_files charref abbr fs (acc @ [ch]) = Inr chs"
          using Cons.prems(1) Some a Inr Added by simp
        ultimately show ?thesis using Cons.IH by blast
      next
        case Skipped
        have "sorted_wrt (<) (map chapter_no acc @ nums abbr fs)"
          using s by (rule sorted_wrt_drop_middle)
        moreover have "chapter_files charref abbr fs acc = Inr chs"
          using Cons.prems(1) Some a Inr Skipped by simp
        ultimately show ?thesis using Cons.IH by blast
      qed
    qed
  qed
qed

lemma distinct_map_sort_key: "distinct (map f (sort_key f xs)) = distinct (map f xs)"
  by (induction xs) (simp_all add: distinct_insort_key)

lemma sorted_names:
  assumes "distinct (map fst fs)"
  shows "sorted_wrt (<) (map fst (sort_key fst (filter P fs)))"
proof -
  have "distinct (map fst (filter P fs))" using assms by (rule distinct_map_filter)
  then have "distinct (map fst (sort_key fst (filter P fs)))" by (simp add: distinct_map_sort_key)
  then show ?thesis by (simp add: strict_sorted_iff)
qed

lemma padded_chapters_sorted:
  assumes "padded w abbr fs"
    and "chapter_files charref abbr (sort_key fst (filter (\<lambda>(f, c). glob_match abbr f) fs)) [] = Inr chs"
  shows "sorted_wrt (<) (map chapter_no chs)"
proof -
  let ?fs = "sort_key fst (filter (\<lambda>(f, c). glob_match abbr f) fs)"
  have "sorted_wrt (<) (map fst ?fs)" using assms(1) by (simp add: padded_def sorted_names)
  moreover have "\<forall>(f, c) \<in> set ?fs. well_named w abbr f"
    using assms(1) by (auto simp: padded_def list_all_iff)
  ultimately have "sorted_wrt (<) (nums abbr ?fs)" by (rule nums_sorted)
  then show ?thesis using chapter_files_sorted[OF assms(2)] by simp
qed

lemma book_folders_chapters:
  "book_folders charref es acc = Inr bs \<Longrightarrow>
   \<forall>b \<in> set acc. sorted_wrt (<) (map chapter_no (chapters b)) \<Longrightarrow>
   \<forall>e \<in> set es. folder_padded w e \<Longrightarrow>
   \<forall>b \<in> set bs. sorted_wrt (<) (map chapter_no (chapters b))"
proof (induction es arbitrary: acc)
  case Nil
  then show ?case by simp
next
  case (Cons a es)
  obtain nm e where a: "a = (nm, e)" by (cases a)
  have rest: "\<forall>e \<in> set es. folder_padded w e" using Cons.prems(3) by simp
  show ?case
  proof (cases e)
    case PlainFile
    then show ?thesis using Cons.IH[OF _ Cons.prems(2) rest] Cons.prems(1) a by simp
  next
    case (Folder fs)
    show ?thesis
    proof (cases "match_book_folder nm")
      case None
      then show ?thesis using Cons.IH[OF _ Cons.prems(2) rest] Cons.prems(1) a Folder by simp
    next
      case (Some oa)
      obtain order abbr where oa: "oa = (order, abbr)" by (cases oa)
      have pad: "padded w abbr fs" using Cons.prems(3) a Folder Some oa by simp
      let ?fs = "sort_key fst (filter (\<lambda>(f, c). glob_match abbr f) fs)"
      show ?thesis
      proof (cases "chapter_files charref abbr ?fs []")
        case (Inl err)
        then show ?thesis using Cons.prems(1) a Folder Some oa by simp
      next
        case (Inr chs)
        have srt: "sorted_wrt (<) (map chapter_no chs)"
          using padded_chapters_sorted[OF pad Inr] .
        show ?thesis
        proof (cases "chs = []")
          case True
          then show ?thesis using Cons.prems(1) a Folder Some oa Inr
            by (simp add: print_to_sys_stderr_def)
        next
          case False
          let ?b = "\<lparr>book_number = order,
                     book_name = (case map_of BOOKS abbr of Some n \<Rightarrow> n | None \<Rightarrow> capitalize abbr),
                     chapters = chs\<rparr>"
          have "book_folders charref es (acc @ [?b]) = Inr bs"
            using Cons.prems(1) a Folder Some oa Inr False by simp
          moreover have "\<forall>b \<in> set (acc @ [?b]). sorted_wrt (<) (map chapter_no (chapters b))"
            using Cons.prems(2) srt by simp
          ultimately show ?thesis using Cons.IH rest by blast
        qed
      qed
    qed
  qed
qed

lemma book_orders_Cons:
  "book_orders ((nm, e) # es) =
     (case e of
        PlainFile \<Rightarrow> book_orders es
      | Folder fs \<Rightarrow> (case match_book_folder nm of
                       None \<Rightarrow> book_orders es
                     | Some (order, abbr) \<Rightarrow> order # book_orders es))"
  by (auto simp: book_orders_def split: entry.splits option.splits)

lemma distinct_drop_middle: "distinct (xs @ y # ys) \<Longrightarrow> distinct (xs @ ys)"
  by simp

lemma book_folders_numbers:
  "book_folders charref es acc = Inr bs \<Longrightarrow>
   distinct (map book_number acc @ book_orders es) \<Longrightarrow>
   distinct (map book_number bs)"
proof (induction es arbitrary: acc)
  case Nil
  then show ?case by (simp add: book_orders_def)
next
  case (Cons a es)
  obtain nm e where a: "a = (nm, e)" by (cases a)
  show ?case
  proof (cases e)
    case PlainFile
    then show ?thesis using Cons a by (simp add: book_orders_Cons)
  next
    case (Folder fs)
    show ?thesis
    proof (cases "match_book_folder nm")
      case None
      then show ?thesis using Cons a Folder by (simp add: book_orders_Cons)
    next
      case (Some oa)
      obtain order abbr where oa: "oa = (order, abbr)" by (cases oa)
      have d: "distinct (map book_number acc @ order # book_orders es)"
        using Cons.prems(2) a Folder Some oa by (simp add: book_orders_Cons)
      let ?fs = "sort_key fst (filter (\<lambda>(f, c). glob_match abbr f) fs)"
      show ?thesis
      proof (cases "chapter_files charref abbr ?fs []")
        case (Inl err)
        then show ?thesis using Cons.prems(1) a Folder Some oa by simp
      next
        case (Inr chs)
        show ?thesis
        proof (cases "chs = []")
          case True
          then show ?thesis using Cons.prems(1) a Folder Some oa Inr
            by (simp add: print_to_sys_stderr_def)
        next
          case False
          let ?b = "\<lparr>book_number = order,
                     book_name = (case map_of BOOKS abbr of Some n \<Rightarrow> n | None \<Rightarrow> capitalize abbr),
                     chapters = chs\<rparr>"
          have "book_folders charref es (acc @ [?b]) = Inr bs"
            using Cons.prems(1) a Folder Some oa Inr False by simp
          moreover have "distinct (map book_number (acc @ [?b]) @ book_orders es)"
            using d by simp
          ultimately show ?thesis using Cons.IH by blast
        qed
      qed
    qed
  qed
qed

lemma book_orders_sort_key:
  "distinct (book_orders (sort_key f es)) = distinct (book_orders es)"
  by (simp add: book_orders_def filter_sort distinct_map)

lemma map_sort_key_sorted: "sorted (map f (sort_key f xs))"
  by simp

text \<open>
  Claim C3. In the document that \<open>parse_version\<close> returns, the books are in ascending
  order of their numbers, strictly so when the book folders have distinct orders; and in
  every book the chapters are in strictly ascending order of their numbers when the
  chapter files of each book folder are well named for one width. The code sorts the
  books by number and takes the chapters in the order of their file names.
\<close>

theorem parse_version_sorted:
  assumes "parse_version charref version_dir_name entries = Inr doc"
  shows "sorted (map book_number (books doc))
       \<and> (distinct (book_orders entries) \<longrightarrow> sorted_wrt (<) (map book_number (books doc)))
       \<and> (list_all (folder_padded w) entries \<longrightarrow>
            (\<forall>b \<in> set (books doc). sorted_wrt (<) (map chapter_no (chapters b))))"
proof -
  from assms obtain bs where bs: "book_folders charref (sort_key fst entries) [] = Inr bs"
    and doc: "books doc = sort_key book_number bs"
    by (auto simp: parse_version_def Let_def split: sum.splits)
  have s: "sorted (map book_number (books doc))" unfolding doc by (rule map_sort_key_sorted)
  have d: "distinct (map book_number (books doc))" if "distinct (book_orders entries)"
  proof -
    have "distinct (map book_number [] @ book_orders (sort_key fst entries))"
      using that by (simp add: book_orders_sort_key)
    then have "distinct (map book_number bs)" using book_folders_numbers[OF bs] by blast
    then show ?thesis unfolding doc by (simp add: distinct_map_sort_key)
  qed
  have c: "\<forall>b \<in> set (books doc). sorted_wrt (<) (map chapter_no (chapters b))"
    if "list_all (folder_padded w) entries"
  proof -
    have "\<forall>e \<in> set (sort_key fst entries). folder_padded w e"
      using that by (simp add: list_all_iff)
    then have "\<forall>b \<in> set bs. sorted_wrt (<) (map chapter_no (chapters b))"
      using book_folders_chapters[OF bs] by simp
    then show ?thesis unfolding doc by simp
  qed
  show ?thesis using s d c by (simp add: strict_sorted_iff)
qed

theorem parse_version_sorted_witness:
  "(\<exists>doc. parse_version (\<lambda>s. s) ''ntv'' two_books = Inr doc
      \<and> distinct (book_orders two_books) \<and> list_all (folder_padded 3) two_books
      \<and> map book_number (books doc) = [1, 2]
      \<and> map (\<lambda>b. map chapter_no (chapters b)) (books doc) = [[9, 10], [1]]
      \<and> sorted_wrt (<) (map book_number (books doc))
      \<and> (\<forall>b \<in> set (books doc). sorted_wrt (<) (map chapter_no (chapters b))))"
proof -
  let ?v = "\<lparr>verse_number = 1, verse_text = ''In the beginning''\<rparr>"
  let ?doc = "\<lparr>name = ''Bible NTV'', metadata_source = ''parsedBible repo'',
      metadata_revision = ''NTV'',
      books = [\<lparr>book_number = 1, book_name = ''Genesis'',
                chapters = [\<lparr>chapter_no = 9, chapter_verses = [?v]\<rparr>,
                            \<lparr>chapter_no = 10, chapter_verses = [?v]\<rparr>]\<rparr>,
               \<lparr>book_number = 2, book_name = ''Exodus'',
                chapters = [\<lparr>chapter_no = 1, chapter_verses = [?v]\<rparr>]\<rparr>]\<rparr>"
  have p: "parse_version (\<lambda>s. s) ''ntv'' two_books = Inr ?doc" by code_simp
  have d: "distinct (book_orders two_books)" by code_simp
  have w: "list_all (folder_padded 3) two_books" by code_simp
  from parse_version_sorted[OF p, of 3] d w
  have "sorted_wrt (<) (map book_number (books ?doc))"
    "\<forall>b \<in> set (books ?doc). sorted_wrt (<) (map chapter_no (chapters b))" by blast+
  then show ?thesis using p d w by (intro exI[of _ ?doc]) simp
qed

text \<open>
  With the files \<open>gen.9.json\<close> and \<open>gen.10.json\<close> the chapters come out as 10, 9: the
  file names are sorted as strings. With the folders \<open>01_exo\<close> and \<open>01_gen\<close> the books come
  out with the numbers 1, 1: sorting by number removes nothing.
\<close>

theorem order_not_strict_for_every_layout:
  "parse_version (\<lambda>s. s) ''NTV''
      [(''01_gen'', Folder [(''gen.9.json'', chapter_json), (''gen.10.json'', chapter_json)])]
     = Inr \<lparr>name = ''Bible NTV'', metadata_source = ''parsedBible repo'',
            metadata_revision = ''NTV'',
            books = [\<lparr>book_number = 1, book_name = ''Genesis'',
                      chapters = [\<lparr>chapter_no = 10,
                         chapter_verses = [\<lparr>verse_number = 1,
                                             verse_text = ''In the beginning''\<rparr>]\<rparr>,
                        \<lparr>chapter_no = 9,
                         chapter_verses = [\<lparr>verse_number = 1,
                                             verse_text = ''In the beginning''\<rparr>]\<rparr>]\<rparr>]\<rparr>
   \<and> \<not> sorted_wrt (<) [10, 9 :: int]
   \<and> parse_version (\<lambda>s. s) ''NTV''
      [(''01_gen'', Folder [(''gen.001.json'', chapter_json)]),
       (''01_exo'', Folder [(''exo.001.json'', chapter_json)])]
     = Inr \<lparr>name = ''Bible NTV'', metadata_source = ''parsedBible repo'',
            metadata_revision = ''NTV'',
            books = [\<lparr>book_number = 1, book_name = ''Exodus'',
                      chapters = [\<lparr>chapter_no = 1,
                         chapter_verses = [\<lparr>verse_number = 1,
                                             verse_text = ''In the beginning''\<rparr>]\<rparr>]\<rparr>,
                     \<lparr>book_number = 1, book_name = ''Genesis'',
                      chapters = [\<lparr>chapter_no = 1,
                         chapter_verses = [\<lparr>verse_number = 1,
                                             verse_text = ''In the beginning''\<rparr>]\<rparr>]\<rparr>]\<rparr>
   \<and> \<not> sorted_wrt (<) [1, 1 :: int]"
  by code_simp

end
